theory Spec2Isabelle
  imports Complex_Main "HOL-Library.Sublist"
begin

section \<open>Sequence Builder (sequential retrieval notebook)\<close>

text \<open>
  One entry of a user's sequence is the dictionary
  \<^verbatim>\<open>{"movie_id": .., "timestamp": .., "rating": ..}\<close>.  The movie id and the
  timestamp are integers; the rating is a number (the padding entry writes \<^verbatim>\<open>0.0\<close>).
\<close>

record interaction =
  movie_id :: int
  timestamp :: int
  rating :: rat

text \<open>
  An example is the dictionary
  \<^verbatim>\<open>{"context_movie_id": [..], "label_movie_id": ..}\<close>.
\<close>

record example =
  context_movie_id :: "int list"
  label_movie_id :: int

text \<open>
  The notebook's module-level constants.  The functions below take them as
  parameters, so that they can also be run with other values.
\<close>

definition MAX_CONTEXT_LENGTH :: nat where
  "MAX_CONTEXT_LENGTH = 10"

definition MIN_SEQUENCE_LENGTH :: nat where
  "MIN_SEQUENCE_LENGTH = 3"

subsection \<open>\<^verbatim>\<open>get_movie_sequence_per_user\<close>\<close>

text \<open>
  \<^verbatim>\<open>sequences = collections.defaultdict(list)\<close> is a dictionary that keeps its keys in
  the order of their first insertion: an association list with one entry for each user id.
  \<^verbatim>\<open>sequences[user_id].append(x)\<close> creates the entry (with the empty list) when the key
  is new and appends to the entry's list.
\<close>

fun append_for :: "int \<Rightarrow> interaction \<Rightarrow> (int \<times> interaction list) list
    \<Rightarrow> (int \<times> interaction list) list" where
  "append_for user_id x [] = [(user_id, [x])]"
| "append_for user_id x ((k, xs) # rest) =
     (if k = user_id then (k, xs @ [x]) # rest
      else (k, xs) # append_for user_id x rest)"

text \<open>
  A row of \<^verbatim>\<open>ratings_df.values\<close> is
  \<^verbatim>\<open>(user_id, movie_id, rating, timestamp)\<close>.
\<close>

type_synonym row = "int \<times> int \<times> rat \<times> int"

fun collect_rows :: "(int \<times> interaction list) list \<Rightarrow> row list
    \<Rightarrow> (int \<times> interaction list) list" where
  "collect_rows sequences [] = sequences"
| "collect_rows sequences ((user_id, movie_id', rating', timestamp') # rows) =
     collect_rows
       (append_for user_id
          \<lparr>movie_id = movie_id', timestamp = timestamp', rating = rating'\<rparr> sequences)
       rows"

text \<open>
  \<^verbatim>\<open>context.sort(key=lambda x: x["timestamp"])\<close> is a stable sort, as is
  \<^const>\<open>sort_key\<close> (insertion sort).
\<close>

definition get_movie_sequence_per_user :: "row list \<Rightarrow> (int \<times> interaction list) list" where
  "get_movie_sequence_per_user ratings =
     map (\<lambda>(user_id, context). (user_id, sort_key timestamp context))
       (collect_rows [] ratings)"

subsection \<open>\<^verbatim>\<open>generate_examples_from_user_sequences\<close>\<close>

definition padding_entry :: interaction where
  "padding_entry = \<lparr>movie_id = 0, timestamp = 0, rating = 0\<rparr>"

text \<open>
  The padding loop
  \<^verbatim>\<open>while len(context) < MAX_CONTEXT_LENGTH: context.append({...})\<close>.
\<close>

function pad_context :: "nat \<Rightarrow> interaction list \<Rightarrow> interaction list" where
  "pad_context mcl context =
     (if length context < mcl then pad_context mcl (context @ [padding_entry])
      else context)"
  by pat_completeness auto
termination
  by (relation "measure (\<lambda>(mcl, context). mcl - length context)") auto

declare pad_context.simps [simp del]

text \<open>
  The body of the loop over \<^verbatim>\<open>label_idx\<close>, up to the choice of the output list.
  \<^verbatim>\<open>max(0, label_idx - MAX_CONTEXT_LENGTH)\<close> is computed on integers, and the slice
  \<^verbatim>\<open>sequence[start_idx:label_idx]\<close> is a fresh list, so the appends do not touch
  \<^verbatim>\<open>sequence\<close>.  \<^verbatim>\<open>label_idx\<close> is below \<^verbatim>\<open>len(sequence)\<close> in the loop, so
  \<^verbatim>\<open>sequence[label_idx]\<close> does not raise.
\<close>

definition build_example :: "nat \<Rightarrow> interaction list \<Rightarrow> nat \<Rightarrow> example" where
  "build_example mcl sequence label_idx =
     (let start_idx = nat (max 0 (int label_idx - int mcl));
          context = pad_context mcl (drop start_idx (take label_idx sequence));
          label_movie_id' = movie_id (sequence ! label_idx);
          context_movie_id' = map movie_id context
      in \<lparr>context_movie_id = context_movie_id', label_movie_id = label_movie_id'\<rparr>)"

fun user_loop :: "nat \<Rightarrow> interaction list \<Rightarrow> nat list \<Rightarrow> example list \<times> example list
    \<Rightarrow> example list \<times> example list" where
  "user_loop mcl sequence [] (train_examples, test_examples) =
     (train_examples, test_examples)"
| "user_loop mcl sequence (label_idx # idxs) (train_examples, test_examples) =
     (let example = build_example mcl sequence label_idx
      in if int label_idx = int (length sequence) - 1
         then user_loop mcl sequence idxs (train_examples, test_examples @ [example])
         else user_loop mcl sequence idxs (train_examples @ [example], test_examples))"

definition generate_examples_from_user_sequence ::
    "nat \<Rightarrow> interaction list \<Rightarrow> example list \<times> example list" where
  "generate_examples_from_user_sequence mcl sequence =
     user_loop mcl sequence [1..<length sequence] ([], [])"

text \<open>
  The outer loop runs over \<^verbatim>\<open>sequences.values()\<close>, in the dictionary's order.
\<close>

fun all_users_loop :: "nat \<Rightarrow> nat \<Rightarrow> interaction list list \<Rightarrow> example list \<times> example list
    \<Rightarrow> example list \<times> example list" where
  "all_users_loop mcl msl [] (all_train_examples, all_test_examples) =
     (all_train_examples, all_test_examples)"
| "all_users_loop mcl msl (sequence # rest) (all_train_examples, all_test_examples) =
     (if length sequence < msl
      then all_users_loop mcl msl rest (all_train_examples, all_test_examples)
      else (case generate_examples_from_user_sequence mcl sequence of
              (user_train_examples, user_test_example) \<Rightarrow>
                all_users_loop mcl msl rest
                  (all_train_examples @ user_train_examples,
                   all_test_examples @ user_test_example)))"

definition generate_examples_from_user_sequences ::
    "nat \<Rightarrow> nat \<Rightarrow> (int \<times> interaction list) list \<Rightarrow> example list \<times> example list" where
  "generate_examples_from_user_sequences mcl msl sequences =
     all_users_loop mcl msl (map snd sequences) ([], [])"

text \<open>The interactions of one user, in the order of the input rows.\<close>

abbreviation interactions_of :: "int \<Rightarrow> row list \<Rightarrow> interaction list" where
  "interactions_of user_id ratings \<equiv>
     map (\<lambda>(u, m, r, t). \<lparr>movie_id = m, timestamp = t, rating = r\<rparr>)
       (filter (\<lambda>row. fst row = user_id) ratings)"

section \<open>Function calling guide\<close>

subsection \<open>Python exceptions\<close>

text \<open>
  The exception classes that the guide's handlers tell apart.  A class stands for itself
  and its subclasses: \<open>SyntaxError\<close> also for \<open>IndentationError\<close>,
  \<open>JSONDecodeError\<close> is the subclass of \<open>ValueError\<close> that the json module raises,
  \<open>OtherException\<close> is any other class derived from \<open>Exception\<close>
  (\<open>ZeroDivisionError\<close>, \<open>NameError\<close>, ...).  \<open>SystemExit\<close>,
  \<open>KeyboardInterrupt\<close> and \<open>GeneratorExit\<close> derive from \<open>BaseException\<close> only.
  An exception carries its class and what \<^verbatim>\<open>str(e)\<close> does: it returns a text
  (\<open>Inr\<close>), or its \<^verbatim>\<open>__str__\<close> raises an exception in turn (\<open>Inl\<close>).
\<close>

datatype exc_class =
  SyntaxError | JSONDecodeError | KeyError | TypeError | ValueError | OtherException
  | SystemExit | KeyboardInterrupt | GeneratorExit

datatype py_exc = PyExc (class_of: exc_class) (str_of: "py_exc + string")

text \<open>\<^verbatim>\<open>isinstance(e, Exception)\<close>\<close>

fun is_Exception :: "exc_class \<Rightarrow> bool" where
  "is_Exception SystemExit = False"
| "is_Exception KeyboardInterrupt = False"
| "is_Exception GeneratorExit = False"
| "is_Exception _ = True"

subsection \<open>Strings\<close>

text \<open>
  A Python string is modelled as a list of characters with code points up to 255.
  \<^verbatim>\<open>str.isspace\<close> on one character, which is also the class \<^verbatim>\<open>\s\<close> of the
  \<^verbatim>\<open>re\<close> module on strings: the code points 9 to 13, 28 to 32, 133 and 160.
\<close>

definition is_space :: "char \<Rightarrow> bool" where
  "is_space c =
     (let n = (of_char c :: nat)
      in (9 \<le> n \<and> n \<le> 13) \<or> (28 \<le> n \<and> n \<le> 32) \<or> n = 133 \<or> n = 160)"

definition newline :: char where
  "newline = CHR 0x0A"

text \<open>\<^verbatim>\<open>s.strip()\<close>\<close>

definition strip :: "string \<Rightarrow> string" where
  "strip s = rev (dropWhile is_space (rev (dropWhile is_space s)))"

text \<open>\<^verbatim>\<open>s.startswith(p)\<close>\<close>

definition starts_with :: "string \<Rightarrow> string \<Rightarrow> bool" where
  "starts_with p s = (take (length p) s = p)"

subsection \<open>\<^verbatim>\<open>extract_tool_call\<close>\<close>

text \<open>
  The pattern is \<^verbatim>\<open>```tool_code\s*\n(.*?)\n```\<close>, searched with \<^verbatim>\<open>re.DOTALL\<close>:
  the opening fence, a greedy run of whitespace, a newline, a lazy group of any characters
  (newlines too), and a newline with the closing fence.  The functions below are the
  backtracking matcher of \<^verbatim>\<open>re\<close> for this pattern.
\<close>

definition fence_open :: string where
  "fence_open = ''```tool_code''"

definition fence_close :: string where
  "fence_close = newline # ''```''"

text \<open>
  The lazy group \<^verbatim>\<open>(.*?)\<close> followed by the closing fence: the group grows one
  character at a time until the closing fence follows; the result is the group.
\<close>

fun lazy_group :: "string \<Rightarrow> string option" where
  "lazy_group [] = None"
| "lazy_group (c # cs) =
     (if starts_with fence_close (c # cs) then Some []
      else map_option ((#) c) (lazy_group cs))"

text \<open>
  \<^verbatim>\<open>\s*\n(.*?)\n```\<close>: the greedy \<^verbatim>\<open>\s*\<close> first takes one more whitespace
  character; when the rest of the pattern fails after that, it stops here, where a newline
  and the group must follow.
\<close>

fun after_fence :: "string \<Rightarrow> string option" where
  "after_fence [] = None"
| "after_fence (c # cs) =
     (case (if is_space c then after_fence cs else None) of
        Some g \<Rightarrow> Some g
      | None \<Rightarrow> if c = newline then lazy_group cs else None)"

text \<open>
  \<^verbatim>\<open>re.search\<close> tries the start positions from left to right and returns the first
  match; the result is group 1.
\<close>

fun re_search :: "string \<Rightarrow> string option" where
  "re_search [] = None"
| "re_search (c # cs) =
     (case (if starts_with fence_open (c # cs)
            then after_fence (drop (length fence_open) (c # cs)) else None) of
        Some g \<Rightarrow> Some g
      | None \<Rightarrow> re_search cs)"

definition extract_tool_call :: "string \<Rightarrow> string option" where
  "extract_tool_call response_text =
     (case re_search response_text of
        Some group1 \<Rightarrow> Some (strip group1)
      | None \<Rightarrow> None)"

text \<open>
  What the pattern describes: the text has a fenced block that starts after \<open>pre\<close> and
  has the payload \<open>payload\<close>, that is, after \<open>pre\<close> come the opening fence,
  whitespace, a newline, the payload (group 1), and a newline with the closing fence.
\<close>

definition fenced_block :: "string \<Rightarrow> string \<Rightarrow> string \<Rightarrow> bool" where
  "fenced_block response_text pre payload \<longleftrightarrow>
     (\<exists>ws post.
        response_text = pre @ fence_open @ ws @ newline # payload @ fence_close @ post
        \<and> (\<forall>c \<in> set ws. is_space c))"

subsection \<open>\<^verbatim>\<open>preprocess\<close>\<close>

text \<open>
  A message is a one-dimensional sequence of token ids; an array of shape \<open>(1, n)\<close> is a
  list with one row.  \<^verbatim>\<open>np.concatenate\<close> raises \<open>ValueError\<close> on an empty list of
  arrays.  \<^verbatim>\<open>row[:k]\<close> counts a negative \<open>k\<close> from the end, and
  \<^verbatim>\<open>np.arange(k)\<close> is empty for \<open>k \<le> 0\<close>.
\<close>

record preprocessed =
  token_ids :: "int list list"
  padding_mask :: "int list list"

definition slice_to :: "'a list \<Rightarrow> int \<Rightarrow> 'a list" where
  "slice_to xs k = (if 0 \<le> k then take (nat k) xs else take (nat (int (length xs) + k)) xs)"

definition arange :: "int \<Rightarrow> int list" where
  "arange k = map int [0..<nat k]"

definition preprocess :: "int list list \<Rightarrow> int \<Rightarrow> py_exc + preprocessed" where
  "preprocess messages sequence_length =
     (if messages = []
      then Inl (PyExc ValueError (Inr ''need at least one array to concatenate''))
      else
        let concatd = concat messages;
            concatd = (if int (length concatd) > sequence_length
                       then slice_to concatd sequence_length else concatd);
            padding_needed = max 0 (sequence_length - int (length concatd))
        in Inr \<lparr>token_ids = [concatd @ replicate (nat padding_needed) 0],
                padding_mask =
                  [map (\<lambda>i. if i < int (length concatd) then 1 else 0)
                     (arange sequence_length)]\<rparr>)"

subsection \<open>\<^verbatim>\<open>capture_code_output\<close>\<close>

text \<open>
  \<^verbatim>\<open>output = io.StringIO()\<close> is the stream that standard output is redirected to.  The
  executed code can write to it and can close it (it is \<^verbatim>\<open>sys.stdout\<close> during the
  run); \<^verbatim>\<open>output.getvalue()\<close> raises \<open>ValueError\<close> on a closed stream.
\<close>

record string_io =
  contents :: string
  closed :: bool

definition getvalue :: "string_io \<Rightarrow> py_exc + string" where
  "getvalue output =
     (if closed output then Inl (PyExc ValueError (Inr ''I/O operation on closed file''))
      else Inr (contents output))"

text \<open>
  The Python interpreter behind \<^verbatim>\<open>eval\<close> and \<^verbatim>\<open>exec\<close> is not part of the guide; it
  is a parameter of the model.  A namespace is a dictionary from names to values.  One run
  of \<^verbatim>\<open>eval\<close> or \<^verbatim>\<open>exec\<close> on a code string, two namespaces and the stream gives
  the stream and the namespaces as the run left them, and either the exception it raised
  or its value (\<^verbatim>\<open>exec\<close> has no value).
\<close>

type_synonym 'v namespace = "(string \<times> 'v) list"

record ('v, 'r) run_result =
  output_after :: string_io
  globals_after :: "'v namespace"
  locals_after :: "'v namespace"
  outcome :: "py_exc + 'r"

type_synonym ('v, 'r) runner =
  "string \<Rightarrow> 'v namespace \<Rightarrow> 'v namespace \<Rightarrow> string_io \<Rightarrow> ('v, 'r) run_result"

text \<open>
  What \<^verbatim>\<open>capture_code_output\<close> returns: a string (the captured output or the error
  text), the value of the expression, or \<^verbatim>\<open>None\<close> after statements.
\<close>

datatype 'v returned = Text string | Value 'v | NoneValue

definition error_prefix :: string where
  "error_prefix = ''Error during code execution: ''"

text \<open>
  The handler \<^verbatim>\<open>except Exception as e: return f"Error during code execution: {e}"\<close>:
  an exception that is not an instance of \<open>Exception\<close> passes through it, and so does
  the exception that \<^verbatim>\<open>str(e)\<close> raises while the text is formatted (\<open>Inl\<close>).
\<close>

definition except_Exception :: "py_exc \<Rightarrow> py_exc + 'v returned" where
  "except_Exception e =
     (if is_Exception (class_of e)
      then (case str_of e of
              Inr text_of_e \<Rightarrow> Inr (Text (error_prefix @ text_of_e))
            | Inl e' \<Rightarrow> Inl e')
      else Inl e)"

text \<open>
  The statements after the \<^verbatim>\<open>try\<close> block: \<^verbatim>\<open>output.getvalue()\<close>, outside any
  handler, then the choice between the captured text and \<^verbatim>\<open>result\<close>.
\<close>

definition after_try :: "string_io \<Rightarrow> 'v returned \<Rightarrow> py_exc + 'v returned" where
  "after_try output result =
     (case getvalue output of
        Inl e \<Rightarrow> Inl e
      | Inr stdout_output \<Rightarrow>
          if strip stdout_output \<noteq> [] then Inr (Text stdout_output) else Inr result)"

definition capture_code_output ::
    "('v, 'v) runner \<Rightarrow> ('v, unit) runner \<Rightarrow> string
      \<Rightarrow> 'v namespace option \<Rightarrow> 'v namespace option \<Rightarrow> py_exc + 'v returned" where
  "capture_code_output py_eval py_exec code_string globals_dict locals_dict =
     (let globals_dict' = (case globals_dict of None \<Rightarrow> [] | Some g \<Rightarrow> g);
          locals_dict' = (case locals_dict of None \<Rightarrow> globals_dict' | Some l \<Rightarrow> l);
          output = \<lparr>contents = [], closed = False\<rparr>;
          ev = py_eval code_string globals_dict' locals_dict' output
      in case outcome ev of
           Inr result \<Rightarrow> after_try (output_after ev) (Value result)
         | Inl e \<Rightarrow>
             if class_of e = SyntaxError
             then (let ex = py_exec code_string (globals_after ev) (locals_after ev)
                              (output_after ev)
                   in case outcome ex of
                        Inr u \<Rightarrow> after_try (output_after ex) NoneValue
                      | Inl e' \<Rightarrow> except_Exception e')
             else except_Exception e)"

text \<open>
  A stand-in for the interpreter on the code strings used as test inputs below, with what
  Python does on each when the stream is open.  As expressions: \<^verbatim>\<open>print()\<close> writes a newline and has the value
  \<^verbatim>\<open>None\<close>; \<^verbatim>\<open>1 + 1\<close> has the value 2; \<^verbatim>\<open>1/0\<close> raises
  \<open>ZeroDivisionError\<close>; \<^verbatim>\<open>print() or __import__("sys").stdout.close()\<close> writes a
  newline, closes the stream and has the value \<^verbatim>\<open>None\<close>.  The others are statements,
  on which \<^verbatim>\<open>eval\<close> raises \<open>SyntaxError\<close>; \<^verbatim>\<open>exec\<close> binds \<open>x\<close>, raises
  \<open>SystemExit\<close>, closes the stream, or raises an exception whose \<^verbatim>\<open>__str__\<close>
  returns a number, so that \<^verbatim>\<open>str(e)\<close> raises \<open>TypeError\<close>.
\<close>

datatype pyval = PNone | PInt int | PStr string

definition test_eval :: "(pyval, pyval) runner" where
  \<open>test_eval code g l output =
     (if code = ''print()''
      then \<lparr>output_after = output\<lparr>contents := contents output @ [newline]\<rparr>,
             globals_after = g, locals_after = l, outcome = Inr PNone\<rparr>
      else if code = ''1 + 1''
      then \<lparr>output_after = output, globals_after = g, locals_after = l,
             outcome = Inr (PInt 2)\<rparr>
      else if code = ''1/0''
      then \<lparr>output_after = output, globals_after = g, locals_after = l,
             outcome = Inl (PyExc OtherException (Inr ''division by zero''))\<rparr>
      else if code = ''print() or __import__("sys").stdout.close()''
      then \<lparr>output_after = \<lparr>contents = contents output @ [newline], closed = True\<rparr>,
             globals_after = g, locals_after = l, outcome = Inr PNone\<rparr>
      else \<lparr>output_after = output, globals_after = g, locals_after = l,
             outcome = Inl (PyExc SyntaxError (Inr ''invalid syntax''))\<rparr>)\<close>

definition test_exec :: "(pyval, unit) runner" where
  \<open>test_exec code g l output =
     (if code = ''x = 1''
      then \<lparr>output_after = output, globals_after = g,
             locals_after = l @ [(''x'', PInt 1)], outcome = Inr ()\<rparr>
      else if code = ''raise SystemExit''
      then \<lparr>output_after = output, globals_after = g, locals_after = l,
             outcome = Inl (PyExc SystemExit (Inr []))\<rparr>
      else if code = ''import sys; sys.stdout.close()''
      then \<lparr>output_after = output\<lparr>closed := True\<rparr>, globals_after = g,
             locals_after = l, outcome = Inr ()\<rparr>
      else if code = ''raise type("E", (Exception,), {"__str__": lambda s: 1})()''
      then \<lparr>output_after = output, globals_after = g, locals_after = l,
             outcome =
               Inl (PyExc OtherException
                      (Inl (PyExc TypeError
                              (Inr ''__str__ returned non-string (type int)''))))\<rparr>
      else \<lparr>output_after = output, globals_after = g, locals_after = l,
             outcome = Inl (PyExc SyntaxError (Inr ''invalid syntax''))\<rparr>)\<close>

subsection \<open>\<^verbatim>\<open>try_parse_funccall\<close>\<close>

text \<open>
  The values of the json module: what \<^verbatim>\<open>raw_decode\<close> returns and what
  \<^verbatim>\<open>dumps\<close> takes.  A dictionary keeps its keys in insertion order.  The function never
  looks into a float, so their representation \<open>'f\<close> is left open.
\<close>

datatype 'f json =
  JNull | JBool bool | JInt int | JFloat 'f | JStr string
  | JList "'f json list" | JDict "(string \<times> 'f json) list"

text \<open>\<^verbatim>\<open>isinstance(item, dict)\<close>\<close>

fun is_dict :: "'f json \<Rightarrow> bool" where
  "is_dict (JDict d) = True"
| "is_dict _ = False"

text \<open>\<^verbatim>\<open>d[k] = v\<close>: replaces the value of an existing key, appends a new key.\<close>

fun dict_set :: "string \<Rightarrow> 'a \<Rightarrow> (string \<times> 'a) list \<Rightarrow> (string \<times> 'a) list" where
  "dict_set k v [] = [(k, v)]"
| "dict_set k v ((k', v') # d) =
     (if k' = k then (k', v) # d else (k', v') # dict_set k v d)"

text \<open>
  The tokenizer and the json module are external; they are parameters of the model.
  \<open>encode\<close> is the call \<^verbatim>\<open>tokenizer(text)\<close>.  \<^verbatim>\<open>raw_decode\<close> returns the decoded
  value with the end position, or raises.
\<close>

record tokenizer =
  token_to_id :: "string \<Rightarrow> int"
  detokenize :: "int list \<Rightarrow> string"
  encode :: "string \<Rightarrow> int list"

record 'f json_module =
  raw_decode :: "string \<Rightarrow> py_exc + ('f json \<times> nat)"
  dumps :: "'f json \<Rightarrow> string"

text \<open>
  The global table \<^verbatim>\<open>tools\<close> maps a name to a callable; a call with keyword arguments
  returns a value or raises.
\<close>

type_synonym 'f tool = "(string \<times> 'f json) list \<Rightarrow> py_exc + 'f json"

type_synonym 'f tools = "string \<rightharpoonup> 'f tool"

text \<open>
  The state of the module \<^verbatim>\<open>random\<close> is modelled as the sequence of the values it will
  draw.  \<^verbatim>\<open>random.choices(population, k=k)\<close> picks \<open>k\<close> times the element at the index
  \<^verbatim>\<open>floor(random() * len(population))\<close>, here the next draw reduced to an index, and
  leaves the generator \<open>k\<close> draws further.
\<close>

type_synonym rng = "nat \<Rightarrow> nat"

definition random_choices :: "rng \<Rightarrow> 'a list \<Rightarrow> nat \<Rightarrow> 'a list \<times> rng" where
  "random_choices g population k =
     (map (\<lambda>j. population ! (g j mod length population)) [0..<k], (\<lambda>j. g (j + k)))"

text \<open>\<^verbatim>\<open>string.ascii_letters + string.digits\<close>\<close>

definition ascii_letters_digits :: string where
  "ascii_letters_digits =
     ''abcdefghijklmnopqrstuvwxyz'' @ ''ABCDEFGHIJKLMNOPQRSTUVWXYZ'' @ ''0123456789''"

text \<open>
  \<^verbatim>\<open>call["name"] not in tools\<close>: a list or a dictionary is unhashable, which raises
  \<open>TypeError\<close>; the keys of \<^verbatim>\<open>tools\<close> are strings, so no other value is in it.
\<close>

fun lookup_tool :: "'f tools \<Rightarrow> 'f json \<Rightarrow> py_exc + 'f tool option" where
  "lookup_tool tools (JStr name) = Inr (tools name)"
| "lookup_tool tools (JList xs) = Inl (PyExc TypeError (Inr ''unhashable type: list''))"
| "lookup_tool tools (JDict d) = Inl (PyExc TypeError (Inr ''unhashable type: dict''))"
| "lookup_tool tools _ = Inr None"

text \<open>
  \<^verbatim>\<open>d[k]\<close> raises \<open>KeyError\<close> on a missing key; its text is the key in quotes.
\<close>

definition dict_get :: "(string \<times> 'a) list \<Rightarrow> string \<Rightarrow> py_exc + 'a" where
  "dict_get d k =
     (case map_of d k of
        None \<Rightarrow> Inl (PyExc KeyError (Inr (CHR 0x27 # k @ [CHR 0x27])))
      | Some v \<Rightarrow> Inr v)"

text \<open>
  The loop \<^verbatim>\<open>for call in tool_calls\<close>.  The result is the list \<^verbatim>\<open>res\<close>, or the
  exception that left the loop, with the state of the random generator.
\<close>

fun call_loop :: "tokenizer \<Rightarrow> 'f json_module \<Rightarrow> 'f tools \<Rightarrow> 'f json list \<Rightarrow> rng
    \<Rightarrow> int list list \<Rightarrow> (py_exc + int list list) \<times> rng" where
  "call_loop tok js tools [] g res = (Inr res, g)"
| "call_loop tok js tools (call # rest) g res =
     (case call of
        JDict d \<Rightarrow>
          (case random_choices g ascii_letters_digits 9 of
             (call_id, g') \<Rightarrow>
               (let call' = dict_set ''id'' (JStr call_id) d
                in case dict_get call' ''name'' of
                     Inl e \<Rightarrow> (Inl e, g')
                   | Inr name \<Rightarrow>
                       (case lookup_tool tools name of
                          Inl e \<Rightarrow> (Inl e, g')
                        | Inr None \<Rightarrow> call_loop tok js tools rest g' res
                        | Inr (Some tool) \<Rightarrow>
                            (case dict_get call' ''arguments'' of
                               Inl e \<Rightarrow> (Inl e, g')
                             | Inr (JDict kwargs) \<Rightarrow>
                                 (case tool kwargs of
                                    Inl e \<Rightarrow> (Inl e, g')
                                  | Inr content \<Rightarrow>
                                      (case dict_get call' ''id'' of
                                         Inl e \<Rightarrow> (Inl e, g')
                                       | Inr id' \<Rightarrow>
                                           call_loop tok js tools rest g'
                                             (res @
                                              [[token_to_id tok ''[TOOL_RESULTS]''],
                                               encode tok
                                                 (dumps js
                                                    (JDict [(''content'', content),
                                                            (''call_id'', id')])),
                                               [token_to_id tok ''[/TOOL_RESULTS]'']])))
                             | Inr _ \<Rightarrow>
                                 (Inl (PyExc TypeError
                                         (Inr ''argument after ** must be a mapping'')),
                                  g')))))
      | _ \<Rightarrow>
          (Inl (PyExc TypeError (Inr ''object does not support item assignment'')), g))"

text \<open>\<^verbatim>\<open>except (json.JSONDecodeError, KeyError, TypeError, ValueError)\<close>\<close>

fun handled :: "exc_class \<Rightarrow> bool" where
  "handled JSONDecodeError = True"
| "handled KeyError = True"
| "handled TypeError = True"
| "handled ValueError = True"
| "handled _ = False"

text \<open>
  The body of the \<^verbatim>\<open>try\<close> block: the returned list, or the exception raised in it.
\<close>

definition try_body :: "tokenizer \<Rightarrow> 'f json_module \<Rightarrow> 'f tools \<Rightarrow> int list \<Rightarrow> nat \<Rightarrow> rng
    \<Rightarrow> (py_exc + int list list) \<times> rng" where
  "try_body tok js tools response pos g =
     (case raw_decode js (detokenize tok (drop (pos + 1) response)) of
        Inl e \<Rightarrow> (Inl e, g)
      | Inr (tool_calls, end) \<Rightarrow>
          (case tool_calls of
             JList items \<Rightarrow>
               if \<not> list_all is_dict items then (Inr [response], g)
               else call_loop tok js tools items g []
           | _ \<Rightarrow> (Inr [response], g)))"

text \<open>
  \<^verbatim>\<open>np.where(response == tool_call_id)[0]\<close> is the list of the positions of the token.
  The result of \<^verbatim>\<open>try_parse_funccall\<close> is the returned list of token sequences, or the
  exception that leaves the function (\<open>Inl\<close>), with the state of the random generator.
  The handler formats the caught exception for its \<^verbatim>\<open>print\<close>, so an exception raised
  by \<^verbatim>\<open>str(e)\<close> leaves the function too; the printed line itself is not modelled.
\<close>

definition try_parse_funccall :: "tokenizer \<Rightarrow> 'f json_module \<Rightarrow> 'f tools \<Rightarrow> int list \<Rightarrow> rng
    \<Rightarrow> (py_exc + int list list) \<times> rng" where
  "try_parse_funccall tok js tools response g =
     (let tool_call_id = token_to_id tok ''[TOOL_CALLS]'';
          pos = filter (\<lambda>i. response ! i = tool_call_id) [0..<length response]
      in if pos = [] then (Inr [response], g)
         else (case try_body tok js tools response (hd pos) g of
                 (Inl e, g') \<Rightarrow>
                   if handled (class_of e)
                   then (case str_of e of
                           Inr text_of_e \<Rightarrow> (Inr [response], g')
                         | Inl e' \<Rightarrow> (Inl e', g'))
                   else (Inl e, g')
               | (Inr res, g') \<Rightarrow> (Inr res, g')))"

text \<open>
  Stand-ins for the external parts on the test inputs below.  The tokenizer has one token
  for each character (its code point) and the three control tokens; the json module
  decodes the six payloads used below and raises \<open>JSONDecodeError\<close> on any other text,
  and writes the result dictionary of a tool that returned a string; the tool table has
  three tools: \<^verbatim>\<open>known_tool\<close>, which takes the keyword argument \<open>x\<close> and returns a
  string, \<^verbatim>\<open>failing_tool\<close>, which takes no argument and divides by zero, and
  \<^verbatim>\<open>badstr_tool\<close>, which takes no argument and raises an instance of a subclass of
  \<open>TypeError\<close> whose \<^verbatim>\<open>__str__\<close> returns a number, so that \<^verbatim>\<open>str(e)\<close> raises
  \<open>TypeError\<close>.
\<close>

definition test_tokenizer :: tokenizer where
  "test_tokenizer =
     \<lparr>token_to_id = (\<lambda>s. if s = ''[TOOL_CALLS]'' then 1005
                          else if s = ''[TOOL_RESULTS]'' then 1008
                          else if s = ''[/TOOL_RESULTS]'' then 1009 else 1000),
      detokenize = (\<lambda>ids. map (\<lambda>i. char_of i) (filter (\<lambda>i. i < 256) ids)),
      encode = map of_char\<rparr>"

definition test_json :: "rat json_module" where
  \<open>test_json =
     \<lparr>raw_decode = (\<lambda>s.
        if s = ''[{"name":"unknown_tool","arguments":{}}]''
        then Inr (JList [JDict [(''name'', JStr ''unknown_tool''), (''arguments'', JDict [])]],
                  length s)
        else if s = ''[{"name":"known_tool","arguments":{"x":1}}]''
        then Inr (JList [JDict [(''name'', JStr ''known_tool''),
                                (''arguments'', JDict [(''x'', JInt 1)])]],
                  length s)
        else if s = ''[{"name":"unknown_tool"}]''
        then Inr (JList [JDict [(''name'', JStr ''unknown_tool'')]], length s)
        else if s = ''[{"name":"known_tool"}]''
        then Inr (JList [JDict [(''name'', JStr ''known_tool'')]], length s)
        else if s = ''[{"name":"failing_tool","arguments":{}},{"arguments":{}}]''
        then Inr (JList [JDict [(''name'', JStr ''failing_tool''), (''arguments'', JDict [])],
                         JDict [(''arguments'', JDict [])]],
                  length s)
        else if s = ''[{"name":"badstr_tool","arguments":{}}]''
        then Inr (JList [JDict [(''name'', JStr ''badstr_tool''), (''arguments'', JDict [])]],
                  length s)
        else Inl (PyExc JSONDecodeError (Inr ''Expecting value''))),
      dumps = (\<lambda>v. case v of
        JDict [(k1, JStr content), (k2, JStr call_id)] \<Rightarrow>
          ''{"'' @ k1 @ ''": "'' @ content @ ''", "'' @ k2 @ ''": "'' @ call_id @ ''"}''
      | _ \<Rightarrow> ''null'')\<rparr>\<close>

definition test_tools :: "rat tools" where
  "test_tools name =
     (if name = ''known_tool''
      then Some (\<lambda>kwargs. if map fst kwargs = [''x''] then Inr (JStr ''done'')
                           else Inl (PyExc TypeError (Inr ''unexpected keyword argument'')))
      else if name = ''failing_tool''
      then Some (\<lambda>kwargs. if kwargs = []
                           then Inl (PyExc OtherException (Inr ''division by zero''))
                           else Inl (PyExc TypeError (Inr ''unexpected keyword argument'')))
      else if name = ''badstr_tool''
      then Some (\<lambda>kwargs. if kwargs = []
                           then Inl (PyExc TypeError
                                       (Inl (PyExc TypeError
                                               (Inr ''__str__ returned non-string (type int)''))))
                           else Inl (PyExc TypeError (Inr ''unexpected keyword argument'')))
      else None)"

text \<open>A generator whose every draw is 0.\<close>

definition constant_draws :: rng where
  "constant_draws = (\<lambda>j. 0)"

text \<open>The control token \<^verbatim>\<open>[TOOL_CALLS]\<close> followed by the tokens of a payload.\<close>

definition tool_call_response :: "string \<Rightarrow> int list" where
  "tool_call_response payload =
     token_to_id test_tokenizer ''[TOOL_CALLS]'' # encode test_tokenizer payload"

section \<open>Properties of the Sequence Builder\<close>

lemma pad_context_eq:
  "pad_context mcl ctx = ctx @ replicate (mcl - length ctx) padding_entry"
proof (induction mcl ctx rule: pad_context.induct)
  case (1 mcl ctx)
  show ?case
  proof (cases "length ctx < mcl")
    case True
    then have "mcl - length ctx = Suc (mcl - Suc (length ctx))" by arith
    with True 1 show ?thesis
      by (subst pad_context.simps) (simp add: replicate_app_Cons_same)
  next
    case False
    then show ?thesis by (subst pad_context.simps) simp
  qed
qed

lemma build_example_eq:
  assumes "label_idx < length sequence"
  shows "build_example mcl sequence label_idx =
    \<lparr>context_movie_id =
        map movie_id (drop (label_idx - mcl) (take label_idx sequence))
          @ replicate (mcl - label_idx) 0,
     label_movie_id = movie_id (sequence ! label_idx)\<rparr>"
proof -
  have s: "nat (max 0 (int label_idx - int mcl)) = label_idx - mcl" by arith
  have l: "mcl - (min (length sequence) label_idx - (label_idx - mcl)) = mcl - label_idx"
    using assms by arith
  show ?thesis
    by (simp add: build_example_def Let_def s pad_context_eq l padding_entry_def)
qed

lemma user_loop_eq:
  "user_loop mcl sequence idxs (tr, te) =
    (tr @ map (build_example mcl sequence)
            (filter (\<lambda>i. int i \<noteq> int (length sequence) - 1) idxs),
     te @ map (build_example mcl sequence)
            (filter (\<lambda>i. int i = int (length sequence) - 1) idxs))"
  by (induction idxs arbitrary: tr te) (simp_all add: Let_def)

lemma upt_split_last:
  assumes "2 \<le> n"
  shows "[1..<n] = [1..<n - 1] @ [n - 1]"
proof -
  from assms have "n = Suc (n - 1)" "1 \<le> n - 1" by arith+
  then show ?thesis by (metis upt_Suc_append)
qed

lemma generate_examples_from_user_sequence_eq:
  assumes "2 \<le> length sequence"
  shows "generate_examples_from_user_sequence mcl sequence =
    (map (build_example mcl sequence) [1..<length sequence - 1],
     [build_example mcl sequence (length sequence - 1)])"
proof -
  let ?n = "length sequence"
  have a: "filter (\<lambda>i. int i \<noteq> int ?n - 1) [Suc 0..<?n - Suc 0] = [Suc 0..<?n - Suc 0]"
    by (rule filter_True) auto
  have b: "filter (\<lambda>i. int i = int ?n - 1) [Suc 0..<?n - Suc 0] = []"
    by (rule filter_False) auto
  have c: "int (?n - Suc 0) = int ?n - 1" using assms by arith
  show ?thesis
    unfolding generate_examples_from_user_sequence_def user_loop_eq
    by (subst (1 2) upt_split_last [OF assms]) (simp add: a b c del: upt_Suc)
qed

lemma all_users_loop_acc:
  "all_users_loop mcl msl seqs (tr, te) =
     (tr @ fst (all_users_loop mcl msl seqs ([], [])),
      te @ snd (all_users_loop mcl msl seqs ([], [])))"
proof (induction seqs arbitrary: tr te)
  case Nil
  show ?case by simp
next
  case (Cons s seqs)
  show ?case
  proof (cases "length s < msl")
    case True
    then show ?thesis using Cons.IH [of tr te] by simp
  next
    case False
    obtain a b where g: "generate_examples_from_user_sequence mcl s = (a, b)"
      by (cases "generate_examples_from_user_sequence mcl s")
    show ?thesis
      using False g Cons.IH [of "tr @ a" "te @ b"] Cons.IH [of a b] by simp
  qed
qed

lemma all_users_loop_append:
  "all_users_loop mcl msl (xs @ ys) acc =
     all_users_loop mcl msl ys (all_users_loop mcl msl xs acc)"
proof (induction xs arbitrary: acc)
  case Nil
  show ?case by (cases acc) simp
next
  case (Cons s xs)
  obtain tr te where acc: "acc = (tr, te)" by (cases acc)
  show ?case unfolding acc by (simp add: Cons.IH split: prod.splits)
qed

lemma map_of_append_for:
  "map_of (append_for u x acc) =
     (map_of acc)(u \<mapsto> (case map_of acc u of None \<Rightarrow> [x] | Some xs \<Rightarrow> xs @ [x]))"
  by (induction acc) (auto simp: fun_eq_iff)

lemma keys_append_for:
  "map fst (append_for u x acc) =
     (if u \<in> set (map fst acc) then map fst acc else map fst acc @ [u])"
proof (induction acc)
  case Nil
  show ?case by simp
next
  case (Cons entry acc)
  obtain k xs where entry: "entry = (k, xs)" by (cases entry)
  show ?case
  proof (cases "k = u")
    case True
    then show ?thesis unfolding entry by simp
  next
    case False
    then show ?thesis unfolding entry using Cons.IH by (simp split: if_splits)
  qed
qed

lemma distinct_collect_rows:
  "distinct (map fst acc) \<Longrightarrow> distinct (map fst (collect_rows acc rows))"
proof (induction rows arbitrary: acc)
  case Nil
  then show ?case by simp
next
  case (Cons row rows)
  obtain u m r t where row: "row = (u, m, r, t)" by (cases row)
  have "distinct (map fst (append_for u \<lparr>movie_id = m, timestamp = t, rating = r\<rparr> acc))"
    using Cons.prems by (simp add: keys_append_for)
  then show ?case unfolding row by (simp add: Cons.IH)
qed

lemma map_of_collect_rows:
  "map_of (collect_rows acc rows) u =
     (case map_of acc u of
        None \<Rightarrow> if interactions_of u rows = [] then None else Some (interactions_of u rows)
      | Some xs \<Rightarrow> Some (xs @ interactions_of u rows))"
proof (induction rows arbitrary: acc)
  case Nil
  show ?case by (simp split: option.splits)
next
  case (Cons row rows)
  obtain u' m r t where row: "row = (u', m, r, t)" by (cases row)
  show ?case unfolding row
    by (simp add: Cons.IH map_of_append_for split: option.splits)
qed

lemma sequence_of_user:
  assumes "(u, sequence) \<in> set (get_movie_sequence_per_user ratings)"
  shows "sequence = sort_key timestamp (interactions_of u ratings)"
proof -
  from assms obtain c where c: "(u, c) \<in> set (collect_rows [] ratings)"
    and s: "sequence = sort_key timestamp c"
    by (auto simp: get_movie_sequence_per_user_def)
  have "distinct (map fst (collect_rows [] ratings))"
    by (rule distinct_collect_rows) simp
  with c have "map_of (collect_rows [] ratings) u = Some c" by simp
  then have "c = interactions_of u ratings"
    by (simp add: map_of_collect_rows split: if_splits)
  with s show ?thesis by simp
qed

lemma last_sorted_max:
  assumes "sorted (map f xs)" "x \<in> set xs"
  shows "f x \<le> f (last xs)"
proof -
  from assms(2) obtain i where i: "i < length xs" "xs ! i = x"
    by (auto simp: in_set_conv_nth)
  then have ne: "xs \<noteq> []" by auto
  have "map f xs ! i \<le> map f xs ! (length xs - 1)"
    using assms(1) i(1) by (intro sorted_nth_mono) auto
  then show ?thesis using i ne by (simp add: last_conv_nth)
qed

lemma user_examples_set:
  "set (fst (generate_examples_from_user_sequence mcl sequence))
     \<union> set (snd (generate_examples_from_user_sequence mcl sequence))
   = build_example mcl sequence ` {1..<length sequence}"
  unfolding generate_examples_from_user_sequence_def user_loop_eq
  by (auto simp del: upt_Suc)

lemma all_examples_set:
  "set (fst (all_users_loop mcl msl seqs ([], [])))
     \<union> set (snd (all_users_loop mcl msl seqs ([], [])))
   = (\<Union>x \<in> {x \<in> set seqs. msl \<le> length x}.
        build_example mcl x ` {1..<length x})"
proof (induction seqs)
  case Nil
  show ?case by simp
next
  case (Cons s seqs)
  show ?case
  proof (cases "length s < msl")
    case True
    then show ?thesis using Cons.IH by auto
  next
    case False
    obtain a b where g: "generate_examples_from_user_sequence mcl s = (a, b)"
      by (cases "generate_examples_from_user_sequence mcl s")
    have ab: "set a \<union> set b = build_example mcl s ` {1..<length s}"
      using user_examples_set [of mcl s] g by simp
    have "set (fst (all_users_loop mcl msl (s # seqs) ([], [])))
        \<union> set (snd (all_users_loop mcl msl (s # seqs) ([], [])))
      = (set a \<union> set b) \<union> (set (fst (all_users_loop mcl msl seqs ([], [])))
        \<union> set (snd (all_users_loop mcl msl seqs ([], []))))"
      using False g all_users_loop_acc [of mcl msl seqs a b] by auto
    also have "\<dots> = (\<Union>x \<in> insert s {x \<in> set seqs. msl \<le> length x}.
        build_example mcl x ` {1..<length x})"
      unfolding ab Cons.IH by simp
    also have "insert s {x \<in> set seqs. msl \<le> length x}
        = {x \<in> set (s # seqs). msl \<le> length x}"
      using False by auto
    finally show ?thesis .
  qed
qed

lemma map_nth_slice:
  assumes "b \<le> length xs"
  shows "map (nth xs) [a..<b] = drop a (take b xs)"
  using assms by (intro nth_equalityI) auto

lemma label_build_example:
  "label_movie_id (build_example mcl sequence label_idx) = movie_id (sequence ! label_idx)"
  by (simp add: build_example_def Let_def)

text \<open>
  Claim C1.  Let \<open>sequence\<close> be the timestamp-sorted sequence that
  \<^const>\<open>get_movie_sequence_per_user\<close> holds for a user, of length \<open>n\<close> with
  \<open>n \<ge> MIN_SEQUENCE_LENGTH\<close>.  Then the user contributes \<open>n - 1\<close> examples:
  \<open>n - 2\<close> train examples, whose labels are the interactions at the positions
  \<open>1 .. n - 2\<close>, and exactly one test example, whose label is the last interaction of
  the sequence, which has the latest timestamp.  These are the user's part of the output of
  \<^const>\<open>generate_examples_from_user_sequences\<close>, between the parts of the users
  before and after.
\<close>

theorem user_examples_count_and_split:
  assumes "get_movie_sequence_per_user ratings = before @ (user_id, sequence) # after"
    and "MIN_SEQUENCE_LENGTH \<le> length sequence"
  shows "case generate_examples_from_user_sequence mcl sequence of
      (train_u, test_u) \<Rightarrow>
        length train_u + length test_u = length sequence - 1 \<and>
        length test_u = 1 \<and>
        length train_u = length sequence - 2 \<and>
        map label_movie_id test_u = [movie_id (last sequence)] \<and>
        map label_movie_id train_u =
          map movie_id (drop 1 (take (length sequence - 1) sequence)) \<and>
        (\<forall>x \<in> set sequence. timestamp x \<le> timestamp (last sequence)) \<and>
        generate_examples_from_user_sequences mcl MIN_SEQUENCE_LENGTH
            (get_movie_sequence_per_user ratings) =
          (fst (generate_examples_from_user_sequences mcl MIN_SEQUENCE_LENGTH before)
             @ train_u
             @ fst (generate_examples_from_user_sequences mcl MIN_SEQUENCE_LENGTH after),
           snd (generate_examples_from_user_sequences mcl MIN_SEQUENCE_LENGTH before)
             @ test_u
             @ snd (generate_examples_from_user_sequences mcl MIN_SEQUENCE_LENGTH after))"
proof -
  let ?n = "length sequence"
  let ?G = "generate_examples_from_user_sequences mcl MIN_SEQUENCE_LENGTH"
  let ?L = "all_users_loop mcl MIN_SEQUENCE_LENGTH"
  let ?train = "map (build_example mcl sequence) [1..<?n - 1]"
  let ?test = "[build_example mcl sequence (?n - 1)]"
  from assms(2) have n3: "3 \<le> ?n" by (simp add: MIN_SEQUENCE_LENGTH_def)
  then have ne: "sequence \<noteq> []" by auto
  have g: "generate_examples_from_user_sequence mcl sequence = (?train, ?test)"
    using n3 by (intro generate_examples_from_user_sequence_eq) simp
  have counts: "length ?train + length ?test = ?n - 1" "length ?train = ?n - 2"
    using n3 by simp_all
  have test_label: "map label_movie_id ?test = [movie_id (last sequence)]"
    using ne by (simp add: label_build_example last_conv_nth)
  have "map label_movie_id ?train = map movie_id (map (nth sequence) [1..<?n - 1])"
    by (simp add: label_build_example comp_def)
  also have "map (nth sequence) [1..<?n - 1] = drop 1 (take (?n - 1) sequence)"
    by (rule map_nth_slice) simp
  finally have train_label:
    "map label_movie_id ?train = map movie_id (drop 1 (take (?n - 1) sequence))" .
  have "(user_id, sequence) \<in> set (get_movie_sequence_per_user ratings)"
    unfolding assms(1) by simp
  then have "sequence = sort_key timestamp (interactions_of user_id ratings)"
    by (rule sequence_of_user)
  then have "sorted (map timestamp sequence)"
    by (metis sorted_sort_key)
  then have latest: "\<forall>x \<in> set sequence. timestamp x \<le> timestamp (last sequence)"
    by (blast intro: last_sorted_max)
  have step: "?L [sequence] acc = (fst acc @ ?train, snd acc @ ?test)" for acc
    using assms(2) g by (cases acc) simp
  have "?G (get_movie_sequence_per_user ratings)
      = ?L (map snd after) (?L [sequence] (?L (map snd before) ([], [])))"
    unfolding assms(1) generate_examples_from_user_sequences_def
    using all_users_loop_append [of mcl MIN_SEQUENCE_LENGTH "map snd before"
        "sequence # map snd after" "([], [])"]
      all_users_loop_append [of mcl MIN_SEQUENCE_LENGTH "[sequence]" "map snd after"]
    by simp
  also have "\<dots> = (fst (?G before) @ ?train @ fst (?G after),
      snd (?G before) @ ?test @ snd (?G after))"
    unfolding step generate_examples_from_user_sequences_def
    by (subst all_users_loop_acc) simp
  finally have total: "?G (get_movie_sequence_per_user ratings)
      = (fst (?G before) @ ?train @ fst (?G after),
         snd (?G before) @ ?test @ snd (?G after))" .
  show ?thesis
    unfolding g prod.case
    using counts test_label train_label latest total by simp
qed

theorem user_examples_count_and_split_witness:
  "get_movie_sequence_per_user
       [(7, 5, 4, 10), (1, 10, 5, 300), (1, 20, 4, 100), (1, 30, 3, 200), (9, 6, 2, 5)]
     = [(7, [\<lparr>movie_id = 5, timestamp = 10, rating = 4\<rparr>])]
       @ (1, [\<lparr>movie_id = 20, timestamp = 100, rating = 4\<rparr>,
              \<lparr>movie_id = 30, timestamp = 200, rating = 3\<rparr>,
              \<lparr>movie_id = 10, timestamp = 300, rating = 5\<rparr>])
       # [(9, [\<lparr>movie_id = 6, timestamp = 5, rating = 2\<rparr>])]
   \<and> MIN_SEQUENCE_LENGTH \<le> length
         [\<lparr>movie_id = 20, timestamp = 100, rating = 4\<rparr>,
          \<lparr>movie_id = 30, timestamp = 200, rating = 3\<rparr>,
          \<lparr>movie_id = 10, timestamp = 300, rating = 5::rat\<rparr>]
   \<and> generate_examples_from_user_sequences 2 MIN_SEQUENCE_LENGTH
         (get_movie_sequence_per_user
           [(7, 5, 4, 10), (1, 10, 5, 300), (1, 20, 4, 100), (1, 30, 3, 200), (9, 6, 2, 5)])
       = ([\<lparr>context_movie_id = [20, 0], label_movie_id = 30\<rparr>],
          [\<lparr>context_movie_id = [20, 30], label_movie_id = 10\<rparr>])"
proof -
  have h1: "get_movie_sequence_per_user
       [(7, 5, 4, 10), (1, 10, 5, 300), (1, 20, 4, 100), (1, 30, 3, 200), (9, 6, 2, 5)]
     = [(7, [\<lparr>movie_id = 5, timestamp = 10, rating = 4\<rparr>])]
       @ (1, [\<lparr>movie_id = 20, timestamp = 100, rating = 4\<rparr>,
              \<lparr>movie_id = 30, timestamp = 200, rating = 3\<rparr>,
              \<lparr>movie_id = 10, timestamp = 300, rating = 5\<rparr>])
       # [(9, [\<lparr>movie_id = 6, timestamp = 5, rating = 2\<rparr>])]"
    by (simp add: get_movie_sequence_per_user_def)
  have h2: "MIN_SEQUENCE_LENGTH \<le> length
         [\<lparr>movie_id = 20, timestamp = 100, rating = 4\<rparr>,
          \<lparr>movie_id = 30, timestamp = 200, rating = 3\<rparr>,
          \<lparr>movie_id = 10, timestamp = 300, rating = 5::rat\<rparr>]"
    by (simp add: MIN_SEQUENCE_LENGTH_def)
  have g: "generate_examples_from_user_sequence 2
         [\<lparr>movie_id = 20, timestamp = 100, rating = 4\<rparr>,
          \<lparr>movie_id = 30, timestamp = 200, rating = 3\<rparr>,
          \<lparr>movie_id = 10, timestamp = 300, rating = 5::rat\<rparr>]
       = ([\<lparr>context_movie_id = [20, 0], label_movie_id = 30\<rparr>],
          [\<lparr>context_movie_id = [20, 30], label_movie_id = 10\<rparr>])"
    by (simp add: generate_examples_from_user_sequence_def build_example_def
        pad_context.simps padding_entry_def upt_rec)
  have e: "generate_examples_from_user_sequences 2 MIN_SEQUENCE_LENGTH
      [(u, [x])] = ([], [])" for u x
    by (simp add: generate_examples_from_user_sequences_def MIN_SEQUENCE_LENGTH_def)
  show ?thesis
    using user_examples_count_and_split [OF h1 h2, of 2] h1 h2
    unfolding g by (simp add: e)
qed

lemma produced_example_origin:
  assumes "e \<in> set (fst (generate_examples_from_user_sequences mcl msl sequences))
             \<union> set (snd (generate_examples_from_user_sequences mcl msl sequences))"
  shows "\<exists>(user_id, sequence) \<in> set sequences. \<exists>label_idx.
           msl \<le> length sequence \<and> 1 \<le> label_idx \<and> label_idx < length sequence \<and>
           e = build_example mcl sequence label_idx"
proof -
  from assms obtain s i where s: "s \<in> set (map snd sequences)" "msl \<le> length s"
    and i: "i \<in> {1..<length s}" and e: "e = build_example mcl s i"
    unfolding generate_examples_from_user_sequences_def all_examples_set by blast
  from s(1) obtain u where "(u, s) \<in> set sequences" by auto
  with s(2) i e show ?thesis by auto
qed

text \<open>
  Claim C2, as the code has it.  Every context produced by the Sequence Builder (train or
  test) has length exactly \<open>MAX_CONTEXT_LENGTH\<close>.  It is the window
  \<^verbatim>\<open>sequence[max(0, label_idx - MAX_CONTEXT_LENGTH):label_idx]\<close> of a user's sequence
  followed by the sentinel entries: when the history before the label has fewer than
  \<open>MAX_CONTEXT_LENGTH\<close> interactions, the real movie ids come first and the sentinel
  zeros are appended after them (padding on the right).
\<close>

theorem context_length_and_right_padding:
  assumes "e \<in> set (fst (generate_examples_from_user_sequences mcl msl sequences))
             \<union> set (snd (generate_examples_from_user_sequences mcl msl sequences))"
  shows "length (context_movie_id e) = mcl \<and>
    (\<exists>(user_id, sequence) \<in> set sequences. \<exists>label_idx.
        1 \<le> label_idx \<and> label_idx < length sequence \<and>
        label_movie_id e = movie_id (sequence ! label_idx) \<and>
        context_movie_id e =
          map movie_id (drop (label_idx - mcl) (take label_idx sequence))
            @ replicate (mcl - label_idx) 0 \<and>
        (label_idx < mcl \<longrightarrow>
           context_movie_id e =
             map movie_id (take label_idx sequence) @ replicate (mcl - label_idx) 0))"
proof -
  from produced_example_origin [OF assms]
  obtain u s i where us: "(u, s) \<in> set sequences"
    and i: "1 \<le> i" "i < length s" and e: "e = build_example mcl s i"
    by blast
  have ctx: "context_movie_id e =
      map movie_id (drop (i - mcl) (take i s)) @ replicate (mcl - i) 0"
    and lab: "label_movie_id e = movie_id (s ! i)"
    unfolding e by (simp_all add: build_example_eq [OF i(2)])
  have len: "length (context_movie_id e) = mcl"
    unfolding ctx using i(2) by simp
  have short: "i < mcl \<longrightarrow>
      context_movie_id e = map movie_id (take i s) @ replicate (mcl - i) 0"
    unfolding ctx by simp
  from us i ctx lab short have "\<exists>(user_id, sequence) \<in> set sequences. \<exists>label_idx.
        1 \<le> label_idx \<and> label_idx < length sequence \<and>
        label_movie_id e = movie_id (sequence ! label_idx) \<and>
        context_movie_id e =
          map movie_id (drop (label_idx - mcl) (take label_idx sequence))
            @ replicate (mcl - label_idx) 0 \<and>
        (label_idx < mcl \<longrightarrow>
           context_movie_id e =
             map movie_id (take label_idx sequence) @ replicate (mcl - label_idx) 0)"
    by blast
  with len show ?thesis by simp
qed

text \<open>One user with three interactions, run with both constants set to 3.\<close>

lemma scenario_3:
  "generate_examples_from_user_sequences 3 3
     [(1, [\<lparr>movie_id = 10, timestamp = 100, rating = 5\<rparr>,
           \<lparr>movie_id = 20, timestamp = 200, rating = 4\<rparr>,
           \<lparr>movie_id = 30, timestamp = 300, rating = 3\<rparr>])]
   = ([\<lparr>context_movie_id = [10, 0, 0], label_movie_id = 20\<rparr>],
      [\<lparr>context_movie_id = [10, 20, 0], label_movie_id = 30\<rparr>])"
  by (simp add: generate_examples_from_user_sequences_def
      generate_examples_from_user_sequence_def build_example_def
      pad_context.simps padding_entry_def upt_rec)

text \<open>
  The theorem for claim C2 at the first train example of that user: the history is the one
  interaction 10, and the context is \<open>[10, 0, 0]\<close>.
\<close>

theorem context_length_and_right_padding_witness:
  "\<lparr>context_movie_id = [10, 0, 0], label_movie_id = 20\<rparr>
     \<in> set (fst (generate_examples_from_user_sequences 3 3
           [(1, [\<lparr>movie_id = 10, timestamp = 100, rating = 5\<rparr>,
                 \<lparr>movie_id = 20, timestamp = 200, rating = 4\<rparr>,
                 \<lparr>movie_id = 30, timestamp = 300, rating = 3\<rparr>])]))
         \<union> set (snd (generate_examples_from_user_sequences 3 3
           [(1, [\<lparr>movie_id = 10, timestamp = 100, rating = 5\<rparr>,
                 \<lparr>movie_id = 20, timestamp = 200, rating = 4\<rparr>,
                 \<lparr>movie_id = 30, timestamp = 300, rating = 3\<rparr>])]))
   \<and> length (context_movie_id \<lparr>context_movie_id = [10, 0, 0], label_movie_id = 20\<rparr>) = 3"
proof -
  have h: "\<lparr>context_movie_id = [10, 0, 0], label_movie_id = 20\<rparr>
     \<in> set (fst (generate_examples_from_user_sequences 3 3
           [(1, [\<lparr>movie_id = 10, timestamp = 100, rating = 5\<rparr>,
                 \<lparr>movie_id = 20, timestamp = 200, rating = 4\<rparr>,
                 \<lparr>movie_id = 30, timestamp = 300, rating = 3\<rparr>])]))
         \<union> set (snd (generate_examples_from_user_sequences 3 3
           [(1, [\<lparr>movie_id = 10, timestamp = 100, rating = 5\<rparr>,
                 \<lparr>movie_id = 20, timestamp = 200, rating = 4\<rparr>,
                 \<lparr>movie_id = 30, timestamp = 300, rating = 3\<rparr>])]))"
    unfolding scenario_3 by simp
  from context_length_and_right_padding [OF h] h show ?thesis by blast
qed

text \<open>
  Claim C2 as stated fails there: with a history of one interaction and a window of
  three, left padding would give \<open>[0, 0, 10]\<close>; the code gives \<open>[10, 0, 0]\<close>.
\<close>

theorem left_padding_counterexample:
  "fst (generate_examples_from_user_sequences 3 3
           [(1, [\<lparr>movie_id = 10, timestamp = 100, rating = 5\<rparr>,
                 \<lparr>movie_id = 20, timestamp = 200, rating = 4\<rparr>,
                 \<lparr>movie_id = 30, timestamp = 300, rating = 3\<rparr>])])
     = [\<lparr>context_movie_id = [10, 0, 0], label_movie_id = 20\<rparr>]
   \<and> [10, 0, 0] \<noteq> replicate 2 (0::int) @ [10]"
  unfolding scenario_3 by simp

text \<open>
  Claim C8, as the code has it.  Provided that no movie id of the input is the sentinel
  value 0: every produced example comes from one user's timestamp-sorted sequence and one
  position \<open>label_idx\<close> in it; the context is the window
  \<^verbatim>\<open>sequence[start:label_idx]\<close> followed by the sentinel entries, so the non-zero
  entries of the context are the window; the label is the interaction at \<open>label_idx\<close>,
  the one right after the window; and the non-zero entries followed by the label are the
  contiguous slice \<^verbatim>\<open>sequence[start:label_idx + 1]\<close> of the sequence's movie ids.
\<close>

theorem context_and_label_contiguous:
  assumes "e \<in> set (fst (generate_examples_from_user_sequences mcl msl
                          (get_movie_sequence_per_user ratings)))
             \<union> set (snd (generate_examples_from_user_sequences mcl msl
                          (get_movie_sequence_per_user ratings)))"
    and "\<forall>(u, m, r, t) \<in> set ratings. m \<noteq> 0"
  shows "\<exists>(user_id, sequence) \<in> set (get_movie_sequence_per_user ratings).
    sequence = sort_key timestamp (interactions_of user_id ratings) \<and>
    (\<exists>start label_idx.
        start \<le> label_idx \<and> label_idx < length sequence \<and>
        context_movie_id e =
          map movie_id (drop start (take label_idx sequence))
            @ replicate (mcl - (label_idx - start)) 0 \<and>
        label_movie_id e = movie_id (sequence ! label_idx) \<and>
        removeAll 0 (context_movie_id e) =
          map movie_id (drop start (take label_idx sequence)) \<and>
        removeAll 0 (context_movie_id e) @ [label_movie_id e] =
          map movie_id (drop start (take (Suc label_idx) sequence))) \<and>
    sublist (removeAll 0 (context_movie_id e) @ [label_movie_id e])
      (map movie_id sequence)"
proof -
  from produced_example_origin [OF assms(1)]
  obtain u s i where us: "(u, s) \<in> set (get_movie_sequence_per_user ratings)"
    and i: "1 \<le> i" "i < length s" and e: "e = build_example mcl s i"
    by blast
  let ?start = "i - mcl"
  let ?window = "map movie_id (drop ?start (take i s))"
  have sorted_seq: "s = sort_key timestamp (interactions_of u ratings)"
    using us by (rule sequence_of_user)
  have k: "mcl - (i - ?start) = mcl - i" by arith
  have ctx: "context_movie_id e = ?window @ replicate (mcl - (i - ?start)) 0"
    and lab: "label_movie_id e = movie_id (s ! i)"
    unfolding e k by (simp_all add: build_example_eq [OF i(2)])
  have "\<forall>x \<in> set s. movie_id x \<noteq> 0"
    unfolding sorted_seq using assms(2) by auto
  then have "0 \<notin> set ?window"
    by (auto dest!: in_set_dropD in_set_takeD)
  then have "removeAll 0 ?window = ?window"
    by (rule removeAll_id)
  moreover have "removeAll 0 (replicate n (0::int)) = []" for n
    by (induction n) simp_all
  ultimately have nonzero: "removeAll 0 (context_movie_id e) = ?window"
    unfolding ctx by simp
  have slice: "removeAll 0 (context_movie_id e) @ [label_movie_id e] =
      map movie_id (drop ?start (take (Suc i) s))"
    unfolding nonzero lab using i(2) by (simp add: take_Suc_conv_app_nth)
  have "sublist (drop ?start (take (Suc i) s)) s"
    by (meson sublist_drop sublist_take sublist_order.order_trans)
  then have contiguous: "sublist (removeAll 0 (context_movie_id e) @ [label_movie_id e])
      (map movie_id s)"
    unfolding slice by (rule map_mono_sublist)
  have "?start \<le> i" by arith
  with i(2) ctx lab nonzero slice
  have inner: "\<exists>start label_idx.
        start \<le> label_idx \<and> label_idx < length s \<and>
        context_movie_id e =
          map movie_id (drop start (take label_idx s))
            @ replicate (mcl - (label_idx - start)) 0 \<and>
        label_movie_id e = movie_id (s ! label_idx) \<and>
        removeAll 0 (context_movie_id e) =
          map movie_id (drop start (take label_idx s)) \<and>
        removeAll 0 (context_movie_id e) @ [label_movie_id e] =
          map movie_id (drop start (take (Suc label_idx) s))"
    by (intro exI [of _ ?start] exI [of _ i]) (intro conjI; assumption)
  show ?thesis
    by (rule bexI [OF _ us])
      (simp only: prod.case, intro conjI sorted_seq inner contiguous)
qed

text \<open>The same user, from the rows of the ratings table.\<close>

lemma scenario_3_sequences:
  "get_movie_sequence_per_user [(1, 10, 5, 100), (1, 20, 4, 200), (1, 30, 3, 300)]
   = [(1, [\<lparr>movie_id = 10, timestamp = 100, rating = 5\<rparr>,
           \<lparr>movie_id = 20, timestamp = 200, rating = 4\<rparr>,
           \<lparr>movie_id = 30, timestamp = 300, rating = 3\<rparr>])]"
  by (simp add: get_movie_sequence_per_user_def)

text \<open>
  The theorem for claim C8 at the example \<open>([10, 0, 0], 20)\<close>: its non-zero entries
  with its label are \<open>[10, 20]\<close>, a contiguous part of the user's movie ids
  \<open>[10, 20, 30]\<close>.
\<close>

theorem context_and_label_contiguous_witness:
  "\<lparr>context_movie_id = [10, 0, 0], label_movie_id = 20\<rparr>
     \<in> set (fst (generate_examples_from_user_sequences 3 3
           (get_movie_sequence_per_user
              [(1, 10, 5, 100), (1, 20, 4, 200), (1, 30, 3, 300)])))
       \<union> set (snd (generate_examples_from_user_sequences 3 3
           (get_movie_sequence_per_user
              [(1, 10, 5, 100), (1, 20, 4, 200), (1, 30, 3, 300)])))
   \<and> list_all (\<lambda>(u, m, r, t). m \<noteq> 0)
         [(1::int, 10::int, 5::rat, 100::int), (1, 20, 4, 200), (1, 30, 3, 300)]
   \<and> sublist (removeAll 0 [10, 0, 0] @ [20]) [10, 20, 30::int]"
proof -
  have h: "\<lparr>context_movie_id = [10, 0, 0], label_movie_id = 20\<rparr>
     \<in> set (fst (generate_examples_from_user_sequences 3 3
           (get_movie_sequence_per_user
              [(1, 10, 5, 100), (1, 20, 4, 200), (1, 30, 3, 300)])))
       \<union> set (snd (generate_examples_from_user_sequences 3 3
           (get_movie_sequence_per_user
              [(1, 10, 5, 100), (1, 20, 4, 200), (1, 30, 3, 300)])))"
    unfolding scenario_3_sequences scenario_3 by simp
  have nz: "\<forall>(u, m, r, t) \<in> set [(1::int, 10::int, 5::rat, 100::int),
          (1, 20, 4, 200), (1, 30, 3, 300)]. m \<noteq> 0"
    by simp
  from context_and_label_contiguous [OF h nz]
  have "sublist (removeAll 0 [10, 0, 0] @ [20]) [10, 20, 30::int]"
    unfolding scenario_3_sequences by simp
  moreover have "list_all (\<lambda>(u, m, r, t). m \<noteq> 0)
         [(1::int, 10::int, 5::rat, 100::int), (1, 20, 4, 200), (1, 30, 3, 300)]"
    by simp
  ultimately show ?thesis using h by blast
qed

text \<open>
  Claim C8 as stated, for every input, fails when a movie has the id 0: the user watches
  the movies 10, 0, 30; the test example is \<open>([10, 0, 0], 30)\<close>; its non-zero entries
  with its label are \<open>[10, 30]\<close>, which is not a contiguous part of \<open>[10, 0, 30]\<close>.
\<close>

theorem zero_movie_id_counterexample:
  "get_movie_sequence_per_user [(1, 10, 5, 100), (1, 0, 4, 200), (1, 30, 3, 300)]
     = [(1, [\<lparr>movie_id = 10, timestamp = 100, rating = 5\<rparr>,
             \<lparr>movie_id = 0, timestamp = 200, rating = 4\<rparr>,
             \<lparr>movie_id = 30, timestamp = 300, rating = 3\<rparr>])]
   \<and> snd (generate_examples_from_user_sequences 3 3
          (get_movie_sequence_per_user [(1, 10, 5, 100), (1, 0, 4, 200), (1, 30, 3, 300)]))
     = [\<lparr>context_movie_id = [10, 0, 0], label_movie_id = 30\<rparr>]
   \<and> removeAll 0 [10, 0, 0] @ [30] = [10, 30::int]
   \<and> \<not> sublist [10, 30] [10, 0, 30::int]"
  by (simp add: get_movie_sequence_per_user_def generate_examples_from_user_sequences_def
      generate_examples_from_user_sequence_def build_example_def
      pad_context.simps padding_entry_def upt_rec sublist_Cons_right)

text \<open>
  Claim C3, as the code has it.  One user watches the items 10, 20, 30, 40 at strictly
  increasing timestamps, with \<open>MAX_CONTEXT_LENGTH = 3\<close> and
  \<open>MIN_SEQUENCE_LENGTH = 3\<close>.  The train set holds two examples,
  \<open>([10, 0, 0], 20)\<close> and \<open>([10, 20, 0], 30)\<close>, and the test set holds the one example
  \<open>([10, 20, 30], 40)\<close>.
\<close>

theorem scenario_train_and_test:
  assumes "t1 < t2" and "t2 < t3" and "t3 < t4"
  shows "generate_examples_from_user_sequences 3 3
      (get_movie_sequence_per_user
         [(user_id, 10, r1, t1), (user_id, 20, r2, t2),
          (user_id, 30, r3, t3), (user_id, 40, r4, t4)])
    = ([\<lparr>context_movie_id = [10, 0, 0], label_movie_id = 20\<rparr>,
        \<lparr>context_movie_id = [10, 20, 0], label_movie_id = 30\<rparr>],
       [\<lparr>context_movie_id = [10, 20, 30], label_movie_id = 40\<rparr>])"
proof -
  have "get_movie_sequence_per_user
         [(user_id, 10, r1, t1), (user_id, 20, r2, t2),
          (user_id, 30, r3, t3), (user_id, 40, r4, t4)]
    = [(user_id, [\<lparr>movie_id = 10, timestamp = t1, rating = r1\<rparr>,
                  \<lparr>movie_id = 20, timestamp = t2, rating = r2\<rparr>,
                  \<lparr>movie_id = 30, timestamp = t3, rating = r3\<rparr>,
                  \<lparr>movie_id = 40, timestamp = t4, rating = r4\<rparr>])]"
    using assms by (simp add: get_movie_sequence_per_user_def)
  then show ?thesis
    by (simp add: generate_examples_from_user_sequences_def
        generate_examples_from_user_sequence_def build_example_def
        pad_context.simps padding_entry_def upt_rec)
qed

text \<open>The scenario of claim C3 at the timestamps 100, 200, 300, 400.\<close>

theorem scenario_train_and_test_witness:
  "(100::int) < 200 \<and> (200::int) < 300 \<and> (300::int) < 400 \<and>
   generate_examples_from_user_sequences 3 3
      (get_movie_sequence_per_user
         [(1, 10, 5, 100), (1, 20, 4, 200), (1, 30, 3, 300), (1, 40, 5, 400)])
    = ([\<lparr>context_movie_id = [10, 0, 0], label_movie_id = 20\<rparr>,
        \<lparr>context_movie_id = [10, 20, 0], label_movie_id = 30\<rparr>],
       [\<lparr>context_movie_id = [10, 20, 30], label_movie_id = 40\<rparr>])"
  using scenario_train_and_test [of 100 200 300 400 1 5 4 3 5] by simp

text \<open>
  Claim C3 as stated fails: the output is not the single train example
  \<open>([0, 10, 20], 30)\<close> with the test example \<open>([10, 20, 30], 40)\<close>.
\<close>

theorem scenario_counterexample:
  "generate_examples_from_user_sequences 3 3
      (get_movie_sequence_per_user
         [(1, 10, 5, 100), (1, 20, 4, 200), (1, 30, 3, 300), (1, 40, 5, 400)])
    \<noteq> ([\<lparr>context_movie_id = [0, 10, 20], label_movie_id = 30\<rparr>],
        [\<lparr>context_movie_id = [10, 20, 30], label_movie_id = 40\<rparr>])"
  by (simp add: get_movie_sequence_per_user_def generate_examples_from_user_sequences_def
        generate_examples_from_user_sequence_def build_example_def
        pad_context.simps padding_entry_def upt_rec)

section \<open>Properties of \<^verbatim>\<open>extract_tool_call\<close>\<close>

lemma space_not_backtick: "is_space c \<Longrightarrow> c \<noteq> CHR ''`''"
  by (auto simp: is_space_def)

lemma newline_is_space: "is_space newline"
  by (simp add: is_space_def newline_def)

lemma newline_not_backtick: "newline \<noteq> CHR ''`''"
  by (simp add: newline_def)

lemma lazy_group_finds_close:
  assumes "CHR ''`'' \<notin> set xs"
  shows "lazy_group (xs @ fence_close @ post) = Some xs"
  using assms
proof (induction xs)
  case Nil
  show ?case by (simp add: fence_close_def starts_with_def)
next
  case (Cons c cs)
  have "\<not> starts_with fence_close (c # cs @ fence_close @ post)"
  proof (cases cs)
    case Nil
    then show ?thesis
      by (simp add: fence_close_def starts_with_def newline_not_backtick)
  next
    case (Cons d ds)
    with Cons.prems show ?thesis
      by (auto simp: fence_close_def starts_with_def)
  qed
  with Cons show ?case by simp
qed

lemma after_fence_no_newline:
  assumes "\<forall>c \<in> set ws. is_space c" and "newline \<notin> set ws"
    and "r \<noteq> []" and "\<not> is_space (hd r)"
  shows "after_fence (ws @ r) = None"
  using assms
proof (induction ws)
  case Nil
  then obtain c cs where r: "r = c # cs" by (cases r) auto
  with Nil have "\<not> is_space c" by simp
  moreover from this have "c \<noteq> newline" using newline_is_space by auto
  ultimately show ?case unfolding r by simp
next
  case (Cons w ws)
  then have "after_fence (ws @ r) = None" by simp
  moreover from Cons.prems have "w \<noteq> newline" by auto
  ultimately show ?case by simp
qed

lemma after_fence_skip_spaces:
  assumes "\<forall>c \<in> set ws. is_space c" and "after_fence r = Some g"
  shows "after_fence (ws @ r) = Some g"
  using assms by (induction ws) simp_all

lemma split_last_newline:
  assumes "newline \<in> set ws"
  shows "\<exists>a b. ws = a @ newline # b \<and> newline \<notin> set b"
  using assms by (metis split_list_last)

lemma strip_core:
  assumes "\<forall>c \<in> set a. is_space c" and "\<forall>c \<in> set b. is_space c"
    and "core \<noteq> []" and "\<not> is_space (hd core)" and "\<not> is_space (last core)"
  shows "strip (a @ core @ b) = core"
proof -
  have 1: "dropWhile is_space (a @ core @ b) = core @ b"
  proof -
    have "dropWhile is_space (a @ (core @ b)) = dropWhile is_space (core @ b)"
      using assms(1) by (intro dropWhile_append2) simp
    also have "\<dots> = core @ b"
      using assms(3,4) by (cases core) simp_all
    finally show ?thesis .
  qed
  have "dropWhile is_space (rev b @ rev core) = dropWhile is_space (rev core)"
    using assms(2) by (intro dropWhile_append2) simp
  also have "\<dots> = rev core"
    using assms(3,5) by (cases core rule: rev_cases) simp_all
  finally show ?thesis by (simp add: strip_def 1)
qed

lemma re_search_at_fence:
  assumes "after_fence r = Some g"
  shows "re_search (fence_open @ r) = Some g"
proof -
  obtain c cs where f: "fence_open = c # cs" by (simp add: fence_open_def)
  have a: "starts_with fence_open (c # cs @ r)"
    unfolding f by (simp add: starts_with_def)
  have b: "drop (length fence_open) (c # cs @ r) = r"
    unfolding f by simp
  have "re_search (c # cs @ r) = Some g"
    by (subst re_search.simps(2)) (simp only: a b assms if_True option.case)
  then show ?thesis by (simp add: f)
qed

text \<open>Whatever the matcher returns is the payload of a fenced block of the text.\<close>

lemma lazy_group_sound:
  "lazy_group s = Some g \<Longrightarrow> \<exists>post. s = g @ fence_close @ post"
proof (induction s arbitrary: g)
  case Nil
  then show ?case by simp
next
  case (Cons c cs)
  show ?case
  proof (cases "starts_with fence_close (c # cs)")
    case True
    with Cons.prems have g: "g = []" by simp
    from True have "c # cs = fence_close @ drop (length fence_close) (c # cs)"
      unfolding starts_with_def by (metis append_take_drop_id)
    with g show ?thesis by auto
  next
    case False
    with Cons.prems obtain g' where g': "lazy_group cs = Some g'" and g: "g = c # g'"
      by auto
    from Cons.IH [OF g'] obtain post where "cs = g' @ fence_close @ post" by blast
    with g show ?thesis by auto
  qed
qed

lemma after_fence_sound:
  "after_fence s = Some g \<Longrightarrow>
     \<exists>ws post. s = ws @ newline # g @ fence_close @ post \<and> (\<forall>c \<in> set ws. is_space c)"
proof (induction s arbitrary: g)
  case Nil
  then show ?case by simp
next
  case (Cons c cs)
  show ?case
  proof (cases "is_space c \<and> after_fence cs \<noteq> None")
    case True
    with Cons.prems have "after_fence cs = Some g" by auto
    from Cons.IH [OF this] obtain ws post
      where "cs = ws @ newline # g @ fence_close @ post" "\<forall>c \<in> set ws. is_space c"
      by blast
    with True have "c # cs = (c # ws) @ newline # g @ fence_close @ post
        \<and> (\<forall>x \<in> set (c # ws). is_space x)"
      by simp
    then show ?thesis by blast
  next
    case False
    with Cons.prems have c: "c = newline" and "lazy_group cs = Some g"
      by (auto split: if_splits option.splits)
    from lazy_group_sound [OF this(2)] obtain post where "cs = g @ fence_close @ post"
      by blast
    with c have "c # cs = [] @ newline # g @ fence_close @ post
        \<and> (\<forall>x \<in> set ([] :: string). is_space x)"
      by simp
    then show ?thesis by blast
  qed
qed

lemma attempt_sound:
  assumes "starts_with fence_open s" and "after_fence (drop (length fence_open) s) = Some g"
  shows "fenced_block s [] g"
proof -
  from assms(1) have s: "s = fence_open @ drop (length fence_open) s"
    unfolding starts_with_def by (metis append_take_drop_id)
  from after_fence_sound [OF assms(2)] obtain ws post
    where "drop (length fence_open) s = ws @ newline # g @ fence_close @ post"
      and "\<forall>c \<in> set ws. is_space c"
    by blast
  with s have "s = [] @ fence_open @ ws @ newline # g @ fence_close @ post
      \<and> (\<forall>c \<in> set ws. is_space c)"
    by simp
  then show ?thesis unfolding fenced_block_def by blast
qed

lemma fenced_block_Cons:
  "fenced_block s pre g \<Longrightarrow> fenced_block (c # s) (c # pre) g"
  unfolding fenced_block_def by auto

lemma re_search_sound:
  "re_search s = Some g \<Longrightarrow> \<exists>pre. fenced_block s pre g"
proof (induction s)
  case Nil
  then show ?case by simp
next
  case (Cons c cs)
  show ?case
  proof (cases "starts_with fence_open (c # cs)
      \<and> after_fence (drop (length fence_open) (c # cs)) \<noteq> None")
    case True
    with Cons.prems have "after_fence (drop (length fence_open) (c # cs)) = Some g"
      by auto
    with True have "fenced_block (c # cs) [] g" by (intro attempt_sound) simp_all
    then show ?thesis by blast
  next
    case False
    with Cons.prems have "re_search cs = Some g"
      by (auto split: if_splits option.splits)
    from Cons.IH [OF this] obtain pre where "fenced_block cs pre g" by blast
    then have "fenced_block (c # cs) (c # pre) g" by (rule fenced_block_Cons)
    then show ?thesis by blast
  qed
qed

text \<open>The search passes over a part of the text in which no fenced block starts.\<close>

lemma re_search_skip:
  assumes "\<forall>pre' payload'. fenced_block (pre @ rest) pre' payload'
             \<longrightarrow> length pre \<le> length pre'"
  shows "re_search (pre @ rest) = re_search rest"
  using assms
proof (induction pre)
  case Nil
  show ?case by simp
next
  case (Cons c cs)
  have here: "\<not> (starts_with fence_open (c # cs @ rest)
      \<and> after_fence (drop (length fence_open) (c # cs @ rest)) \<noteq> None)"
  proof
    assume a: "starts_with fence_open (c # cs @ rest)
      \<and> after_fence (drop (length fence_open) (c # cs @ rest)) \<noteq> None"
    then obtain g where "after_fence (drop (length fence_open) (c # cs @ rest)) = Some g"
      by auto
    with a have "fenced_block ((c # cs) @ rest) [] g"
      by (intro attempt_sound) simp_all
    with Cons.prems have "length (c # cs) \<le> length ([] :: string)" by blast
    then show False by simp
  qed
  have "\<forall>pre' payload'. fenced_block (cs @ rest) pre' payload'
      \<longrightarrow> length cs \<le> length pre'"
  proof (intro allI impI)
    fix pre' payload'
    assume "fenced_block (cs @ rest) pre' payload'"
    then have "fenced_block ((c # cs) @ rest) (c # pre') payload'"
      by (simp add: fenced_block_Cons)
    with Cons.prems have "length (c # cs) \<le> length (c # pre')" by blast
    then show "length cs \<le> length pre'" by simp
  qed
  then have "re_search (cs @ rest) = re_search rest" by (rule Cons.IH)
  with here show ?case by (auto split: option.splits)
qed

text \<open>What \<^const>\<open>strip\<close> removes is whitespace on both sides.\<close>

lemma strip_decompose:
  "\<exists>a b. s = a @ strip s @ b \<and> (\<forall>c \<in> set a. is_space c) \<and> (\<forall>c \<in> set b. is_space c)"
proof -
  let ?a = "takeWhile is_space s"
  let ?d = "dropWhile is_space s"
  let ?b = "rev (takeWhile is_space (rev ?d))"
  have "rev (dropWhile is_space (rev ?d)) @ rev (takeWhile is_space (rev ?d))
      = rev (takeWhile is_space (rev ?d) @ dropWhile is_space (rev ?d))"
    by (simp only: rev_append)
  also have "\<dots> = rev (rev ?d)" by (simp only: takeWhile_dropWhile_id)
  also have "\<dots> = ?d" by (simp only: rev_rev_ident)
  finally have d: "?d = strip s @ ?b" unfolding strip_def by (rule sym)
  have "s = ?a @ ?d" by simp
  with d have "s = ?a @ strip s @ ?b" by simp
  moreover have "\<forall>c \<in> set ?a. is_space c" by (auto dest: set_takeWhileD)
  moreover have "\<forall>c \<in> set ?b. is_space c" by (auto dest: set_takeWhileD)
  ultimately show ?thesis by blast
qed

text \<open>
  The match at a block whose payload is \<open>core\<close> with whitespace around it: the greedy
  whitespace run ends at the last newline before \<open>core\<close>, and the lazy group ends at
  the first closing fence.
\<close>

lemma match_at_block:
  assumes sp: "\<forall>c \<in> set (ws1 @ ws2 @ ws3). is_space c"
    and core: "core \<noteq> []" "\<not> is_space (hd core)" "\<not> is_space (last core)"
      "CHR ''`'' \<notin> set core"
  shows "\<exists>g. re_search (fence_open @ ws1 @ newline # ws2 @ core @ ws3 @ fence_close @ post)
            = Some g \<and> strip g = core"
proof -
  let ?W = "ws1 @ newline # ws2"
  have "newline \<in> set ?W" by simp
  then obtain a b where ab: "?W = a @ newline # b" and nb: "newline \<notin> set b"
    using split_last_newline by blast
  have spW: "\<forall>c \<in> set ?W. is_space c" using sp newline_is_space by auto
  then have spa: "\<forall>c \<in> set a. is_space c" and spb: "\<forall>c \<in> set b. is_space c"
    unfolding ab by auto
  have sp3: "\<forall>c \<in> set ws3. is_space c" using sp by auto
  let ?R = "core @ ws3 @ fence_close @ post"
  have R: "?R \<noteq> []" "\<not> is_space (hd ?R)" using core by auto
  have nobt: "CHR ''`'' \<notin> set (b @ core @ ws3)"
    using spb sp3 core(4) space_not_backtick by auto
  have "after_fence (b @ ?R) = None"
    using spb nb R by (rule after_fence_no_newline)
  moreover have "lazy_group (b @ ?R) = Some (b @ core @ ws3)"
    using lazy_group_finds_close [OF nobt, of post] by simp
  ultimately have "after_fence (newline # b @ ?R) = Some (b @ core @ ws3)"
    using newline_is_space by simp
  then have "after_fence (a @ newline # b @ ?R) = Some (b @ core @ ws3)"
    using spa by (intro after_fence_skip_spaces)
  then have "after_fence (?W @ ?R) = Some (b @ core @ ws3)"
    unfolding ab by simp
  then have "re_search (fence_open @ ?W @ ?R) = Some (b @ core @ ws3)"
    by (rule re_search_at_fence)
  moreover have "strip (b @ core @ ws3) = core"
    using spb sp3 core(1,2,3) by (rule strip_core)
  ultimately show ?thesis by simp
qed

text \<open>
  Claim C4, as the code has it.  When the leftmost fenced block of the text (in particular
  its only one) has the payload \<^verbatim>\<open>print(f(1,2))\<close>, with or without whitespace around
  it, \<^const>\<open>extract_tool_call\<close> returns the payload \<^verbatim>\<open>print(f(1,2))\<close> itself, with
  the surrounding whitespace removed: nothing unwraps the call to \<^verbatim>\<open>print\<close>.  When the
  text has no fenced block, the result is \<open>None\<close>.
\<close>

theorem extract_tool_call_block_and_absence:
  "(fenced_block response_text pre payload
    \<and> strip payload = ''print(f(1,2))''
    \<and> (\<forall>pre' payload'. fenced_block response_text pre' payload'
          \<longrightarrow> length pre \<le> length pre')
    \<longrightarrow> extract_tool_call response_text = Some ''print(f(1,2))'')
   \<and> ((\<forall>pre payload. \<not> fenced_block response_text pre payload)
    \<longrightarrow> extract_tool_call response_text = None)"
proof (intro conjI impI)
  assume h: "fenced_block response_text pre payload
    \<and> strip payload = ''print(f(1,2))''
    \<and> (\<forall>pre' payload'. fenced_block response_text pre' payload'
          \<longrightarrow> length pre \<le> length pre')"
  then obtain ws post where eq: "response_text =
      pre @ fence_open @ ws @ newline # payload @ fence_close @ post"
    and sp: "\<forall>c \<in> set ws. is_space c"
    unfolding fenced_block_def by blast
  from h have st: "strip payload = ''print(f(1,2))''" by blast
  from strip_decompose [of payload] obtain a b
    where payload: "payload = a @ ''print(f(1,2))'' @ b"
      and spa: "\<forall>c \<in> set a. is_space c" and spb: "\<forall>c \<in> set b. is_space c"
    unfolding st by blast
  let ?rest = "fence_open @ ws @ newline # a @ ''print(f(1,2))'' @ b @ fence_close @ post"
  have text_eq: "response_text = pre @ ?rest"
    unfolding eq payload by simp
  have core: "''print(f(1,2))'' \<noteq> []" "\<not> is_space (hd ''print(f(1,2))'')"
    "\<not> is_space (last ''print(f(1,2))'')" "CHR ''`'' \<notin> set ''print(f(1,2))''"
    by (simp_all add: is_space_def)
  have "\<forall>c \<in> set (ws @ a @ b). is_space c" using sp spa spb by auto
  from match_at_block [OF this core, of post]
  obtain g where g: "re_search ?rest = Some g" "strip g = ''print(f(1,2))''"
    by blast
  have "re_search (pre @ ?rest) = re_search ?rest"
    using h unfolding text_eq by (intro re_search_skip) blast
  with g show "extract_tool_call response_text = Some ''print(f(1,2))''"
    unfolding text_eq by (simp add: extract_tool_call_def)
next
  assume none: "\<forall>pre payload. \<not> fenced_block response_text pre payload"
  have "re_search response_text = None"
  proof (cases "re_search response_text")
    case None
    then show ?thesis .
  next
    case (Some g)
    from re_search_sound [OF this] none show ?thesis by blast
  qed
  then show "extract_tool_call response_text = None"
    by (simp add: extract_tool_call_def)
qed

text \<open>
  Where a fenced block can start: at an opening fence that is followed, after whitespace
  only, by a newline.
\<close>

lemma fenced_block_start:
  assumes "fenced_block s pre payload"
  shows "length pre + length fence_open \<le> length s
    \<and> starts_with fence_open (drop (length pre) s)
    \<and> newline \<in> set (takeWhile is_space (drop (length pre + length fence_open) s))"
proof -
  from assms obtain ws post
    where s: "s = pre @ fence_open @ ws @ newline # payload @ fence_close @ post"
      and sp: "\<forall>c \<in> set ws. is_space c"
    unfolding fenced_block_def by blast
  have "takeWhile is_space (ws @ newline # payload @ fence_close @ post)
      = ws @ takeWhile is_space (newline # payload @ fence_close @ post)"
    using sp by (intro takeWhile_append2) simp
  then have "newline \<in> set (takeWhile is_space (ws @ newline # payload @ fence_close @ post))"
    using newline_is_space by simp
  moreover have "drop (length pre + length fence_open) s
      = ws @ newline # payload @ fence_close @ post"
    unfolding s by simp
  ultimately show ?thesis
    unfolding s by (simp add: starts_with_def)
qed

text \<open>
  The theorem for claim C4 at a text shaped as in the guide, where the prompt names the
  fence inline before the response's block, and at a text with a fence and no block.
\<close>

theorem extract_tool_call_block_and_absence_witness:
  "extract_tool_call
     (''```tool_code``` '' @ fence_open @ newline # ''print(f(1,2))'' @ fence_close
        @ ''<end_of_turn>'')
     = Some ''print(f(1,2))''
   \<and> extract_tool_call ''```tool_code```'' = None"
proof -
  let ?t = "''```tool_code``` '' @ fence_open @ newline # ''print(f(1,2))'' @ fence_close
        @ ''<end_of_turn>''"
  have block: "fenced_block ?t ''```tool_code``` '' ''print(f(1,2))''"
    unfolding fenced_block_def
    by (intro exI [of _ "[]"] exI [of _ "''<end_of_turn>''"]) simp
  have st: "strip ''print(f(1,2))'' = ''print(f(1,2))''"
    by (simp add: strip_def is_space_def)
  have no_start: "\<not> (starts_with fence_open (drop i ?t)
      \<and> newline \<in> set (takeWhile is_space (drop (i + length fence_open) ?t)))"
    if "i < 16" for i
  proof -
    from that have "i \<in> set [0..<16]" by simp
    then show ?thesis
      by (auto simp: upt_rec starts_with_def fence_open_def fence_close_def is_space_def
          newline_def)
  qed
  have leftmost: "\<forall>pre' payload'. fenced_block ?t pre' payload'
      \<longrightarrow> length ''```tool_code``` '' \<le> length pre'"
  proof (intro allI impI)
    fix pre' payload'
    assume "fenced_block ?t pre' payload'"
    from fenced_block_start [OF this] no_start [of "length pre'"]
    show "length ''```tool_code``` '' \<le> length pre'"
      by (cases "length pre' < 16") simp_all
  qed
  have a: "extract_tool_call ?t = Some ''print(f(1,2))''"
    using extract_tool_call_block_and_absence
      [of ?t "''```tool_code``` ''" "''print(f(1,2))''"] block st leftmost
    by blast
  have none: "\<forall>pre payload. \<not> fenced_block ''```tool_code```'' pre payload"
  proof (intro allI notI)
    fix pre payload
    assume "fenced_block ''```tool_code```'' pre payload"
    from fenced_block_start [OF this]
    have "length pre \<le> 3" and "starts_with fence_open (drop (length pre) ''```tool_code```'')"
      and "newline \<in> set (takeWhile is_space
        (drop (length pre + length fence_open) ''```tool_code```''))"
      by (simp_all add: fence_open_def)
    then have "length pre \<in> set [0..<4]" by simp
    with \<open>starts_with fence_open (drop (length pre) ''```tool_code```'')\<close>
      \<open>newline \<in> set (takeWhile is_space
        (drop (length pre + length fence_open) ''```tool_code```''))\<close>
    show False
      by (auto simp: upt_rec starts_with_def fence_open_def is_space_def newline_def)
  qed
  have b: "extract_tool_call ''```tool_code```'' = None"
    using extract_tool_call_block_and_absence [of "''```tool_code```''"] none
    by blast
  from a b show ?thesis by blast
qed

text \<open>
  Claim C4 as stated fails: for the block with payload \<^verbatim>\<open>print(f(1,2))\<close> the
  result is \<^verbatim>\<open>print(f(1,2))\<close>, not \<^verbatim>\<open>f(1,2)\<close>.
\<close>

theorem extract_tool_call_counterexample:
  "extract_tool_call (fence_open @ newline # ''print(f(1,2))'' @ fence_close)
     = Some ''print(f(1,2))''
   \<and> Some ''print(f(1,2))'' \<noteq> Some ''f(1,2)''"
  by (simp add: extract_tool_call_def fence_open_def fence_close_def starts_with_def
      is_space_def newline_def strip_def)

section \<open>Properties of \<^verbatim>\<open>preprocess\<close>\<close>

lemma mask_row:
  assumes "k \<le> n"
  shows "map (\<lambda>i. if i < int k then 1 else 0) (arange (int n))
    = replicate k (1::int) @ replicate (n - k) 0"
  using assms by (intro nth_equalityI) (auto simp: arange_def nth_append)

text \<open>
  Claim C9.  For a non-empty list of token sequences and \<open>sequence_length > 0\<close>,
  \<^const>\<open>preprocess\<close> returns (it does not raise), \<open>token_ids\<close> has shape
  \<open>(1, sequence_length)\<close>: the concatenated tokens, truncated to \<open>sequence_length\<close>
  and padded with zeros on the right; and \<open>padding_mask\<close> has the same shape, with ones
  at exactly the first \<open>min(total length, sequence_length)\<close> positions.
\<close>

theorem preprocess_shape_and_mask:
  assumes "messages \<noteq> []" and "0 < sequence_length"
  shows "case preprocess messages sequence_length of
      Inl e \<Rightarrow> False
    | Inr r \<Rightarrow>
        token_ids r =
          [take (nat sequence_length) (concat messages)
             @ replicate (nat sequence_length - length (concat messages)) 0] \<and>
        length (token_ids r) = 1 \<and>
        length (hd (token_ids r)) = nat sequence_length \<and>
        padding_mask r =
          [replicate (min (length (concat messages)) (nat sequence_length)) 1
             @ replicate
                 (nat sequence_length - min (length (concat messages)) (nat sequence_length))
                 0] \<and>
        length (padding_mask r) = 1 \<and>
        length (hd (padding_mask r)) = nat sequence_length"
proof -
  let ?n = "nat sequence_length"
  let ?all = "concat messages"
  let ?k = "min (length ?all) ?n"
  have sl: "sequence_length = int ?n" using assms(2) by simp
  show ?thesis
  proof (cases "int (length ?all) > sequence_length")
    case True
    then have k: "?k = ?n" and z: "?n - length ?all = 0" by arith+
    have m: "map (\<lambda>i. if i < int ?n then 1 else 0) (arange (int ?n))
        = replicate ?n (1::int) @ replicate (?n - ?n) 0"
      by (rule mask_row) simp
    have len: "min (length ?all) ?n = ?n" using k .
    have r: "preprocess messages sequence_length =
        Inr \<lparr>token_ids = [take ?n ?all],
             padding_mask = [replicate ?n 1]\<rparr>"
      using assms True m
      by (simp add: preprocess_def slice_to_def Let_def len flip: sl)
    show ?thesis unfolding r using True by (simp add: len)
  next
    case False
    then have le: "length ?all \<le> ?n" and k: "?k = length ?all" by arith+
    have pad: "nat (max 0 (sequence_length - int (length ?all))) = ?n - length ?all"
      by arith
    have m: "map (\<lambda>i. if i < int (length ?all) then 1 else 0) (arange (int ?n))
        = replicate (length ?all) (1::int) @ replicate (?n - length ?all) 0"
      using le by (rule mask_row)
    have r: "preprocess messages sequence_length =
        Inr \<lparr>token_ids = [?all @ replicate (?n - length ?all) 0],
             padding_mask =
               [replicate (length ?all) 1 @ replicate (?n - length ?all) 0]\<rparr>"
      using assms False m
      by (simp add: preprocess_def Let_def pad flip: sl)
    show ?thesis unfolding r using le by (simp add: k)
  qed
qed

text \<open>
  The theorem for claim C9 at the messages \<open>[[1, 2], [3]]\<close>, padded to length 5 and
  truncated to length 2.
\<close>

theorem preprocess_shape_and_mask_witness:
  "[[1, 2], [3::int]] \<noteq> [] \<and> (0::int) < 5 \<and>
   preprocess [[1, 2], [3]] 5 =
     Inr \<lparr>token_ids = [[1, 2, 3, 0, 0]], padding_mask = [[1, 1, 1, 0, 0]]\<rparr> \<and>
   preprocess [[1, 2], [3]] 2 =
     Inr \<lparr>token_ids = [[1, 2]], padding_mask = [[1, 1]]\<rparr>"
proof -
  have h1: "[[1, 2], [3::int]] \<noteq> []" by simp
  have a: "preprocess [[1, 2], [3]] 5 =
     Inr \<lparr>token_ids = [[1, 2, 3, 0, 0]], padding_mask = [[1, 1, 1, 0, 0]]\<rparr>"
    using preprocess_shape_and_mask [OF h1, of 5]
    by (auto split: sum.splits simp: numeral_eq_Suc)
  have b: "preprocess [[1, 2], [3]] 2 =
     Inr \<lparr>token_ids = [[1, 2]], padding_mask = [[1, 1]]\<rparr>"
    using preprocess_shape_and_mask [OF h1, of 2]
    by (auto split: sum.splits simp: numeral_eq_Suc)
  from a b show ?thesis by simp
qed

section \<open>Properties of \<^verbatim>\<open>capture_code_output\<close>\<close>

text \<open>
  Claim C6, as the code has it.  For every interpreter, code string and namespaces:
  an exception raised by \<^verbatim>\<open>eval\<close>, other than \<open>SyntaxError\<close>, or raised by
  \<^verbatim>\<open>exec\<close>, is returned as the text \<^verbatim>\<open>Error during code execution: \<close> followed by
  \<^verbatim>\<open>str(e)\<close> when it is an instance of \<open>Exception\<close> and \<^verbatim>\<open>str(e)\<close> returns; when
  \<^verbatim>\<open>str(e)\<close> raises, that exception leaves the function; an exception that is not an
  instance of \<open>Exception\<close> leaves the function as it is.  A \<open>SyntaxError\<close> raised by
  \<^verbatim>\<open>eval\<close> makes the function execute the code as statements.  When the expression
  evaluates, or the statements execute, and the stream is open, the result is the captured
  output if it has a character that is not whitespace, otherwise the expression's value,
  or \<^verbatim>\<open>None\<close> after statements; when the code closed the stream, reading it raises
  \<open>ValueError\<close>, which leaves the function.  An instance of \<open>Exception\<close> leaves the
  function in these two ways only: from the closed stream after a run without exception,
  and from \<^verbatim>\<open>str(e)\<close> in the handler.
\<close>

theorem capture_code_output_exceptions_and_result:
  "let g = (case globals_dict of None \<Rightarrow> [] | Some d \<Rightarrow> d);
       l = (case locals_dict of None \<Rightarrow> g | Some d \<Rightarrow> d);
       ev = py_eval code_string g l \<lparr>contents = [], closed = False\<rparr>;
       ex = py_exec code_string (globals_after ev) (locals_after ev) (output_after ev);
       closed_error = PyExc ValueError (Inr ''I/O operation on closed file'');
       result = capture_code_output py_eval py_exec code_string globals_dict locals_dict
   in (\<forall>e. outcome ev = Inl e \<and> class_of e \<noteq> SyntaxError \<longrightarrow>
         result = (if is_Exception (class_of e)
                   then (case str_of e of
                           Inr t \<Rightarrow> Inr (Text (error_prefix @ t))
                         | Inl e' \<Rightarrow> Inl e')
                   else Inl e)) \<and>
      (\<forall>e e'. outcome ev = Inl e \<and> class_of e = SyntaxError \<and> outcome ex = Inl e' \<longrightarrow>
         result = (if is_Exception (class_of e')
                   then (case str_of e' of
                           Inr t \<Rightarrow> Inr (Text (error_prefix @ t))
                         | Inl e'' \<Rightarrow> Inl e'')
                   else Inl e')) \<and>
      (\<forall>v. outcome ev = Inr v \<longrightarrow>
         result = (if closed (output_after ev) then Inl closed_error
                   else if strip (contents (output_after ev)) \<noteq> []
                   then Inr (Text (contents (output_after ev)))
                   else Inr (Value v))) \<and>
      (\<forall>e u. outcome ev = Inl e \<and> class_of e = SyntaxError \<and> outcome ex = Inr u \<longrightarrow>
         result = (if closed (output_after ex) then Inl closed_error
                   else if strip (contents (output_after ex)) \<noteq> []
                   then Inr (Text (contents (output_after ex)))
                   else Inr NoneValue)) \<and>
      (\<forall>e. result = Inl e \<and> is_Exception (class_of e) \<longrightarrow>
         (e = closed_error \<and>
            ((\<exists>v. outcome ev = Inr v \<and> closed (output_after ev)) \<or>
             (\<exists>s u. outcome ev = Inl s \<and> class_of s = SyntaxError \<and> outcome ex = Inr u
                \<and> closed (output_after ex)))) \<or>
         (\<exists>raised. is_Exception (class_of raised) \<and> str_of raised = Inl e \<and>
            ((outcome ev = Inl raised \<and> class_of raised \<noteq> SyntaxError) \<or>
             (\<exists>s. outcome ev = Inl s \<and> class_of s = SyntaxError
                \<and> outcome ex = Inl raised))))"
  unfolding Let_def
  apply (intro conjI allI impI)
  subgoal by (simp add: capture_code_output_def Let_def except_Exception_def)
  subgoal by (simp add: capture_code_output_def Let_def except_Exception_def)
  subgoal by (simp add: capture_code_output_def Let_def after_try_def getvalue_def)
  subgoal by (simp add: capture_code_output_def Let_def after_try_def getvalue_def)
  subgoal for e
    by (auto simp: capture_code_output_def Let_def except_Exception_def after_try_def
        getvalue_def split: sum.splits if_splits)
  done

text \<open>
  The theorem for claim C6 on four code strings: an expression that raises, a statement
  that raises \<open>SystemExit\<close>, an expression with a value, and a statement.
\<close>

theorem capture_code_output_exceptions_and_result_witness:
  "capture_code_output test_eval test_exec ''1/0'' None None
     = Inr (Text ''Error during code execution: division by zero'')
   \<and> capture_code_output test_eval test_exec ''raise SystemExit'' None None
     = Inl (PyExc SystemExit (Inr []))
   \<and> capture_code_output test_eval test_exec ''1 + 1'' None None = Inr (Value (PInt 2))
   \<and> capture_code_output test_eval test_exec ''x = 1'' None None = Inr NoneValue"
  using capture_code_output_exceptions_and_result
    [of None None test_eval "''1/0''" test_exec]
    capture_code_output_exceptions_and_result
    [of None None test_eval "''raise SystemExit''" test_exec]
    capture_code_output_exceptions_and_result
    [of None None test_eval "''1 + 1''" test_exec]
    capture_code_output_exceptions_and_result
    [of None None test_eval "''x = 1''" test_exec]
  by (simp add: Let_def test_eval_def test_exec_def error_prefix_def strip_def)

text \<open>
  Claim C6 as stated fails in five ways: \<open>SystemExit\<close> raised by the executed code leaves
  \<^const>\<open>capture_code_output\<close>; the output of \<^verbatim>\<open>print()\<close>, a newline, was produced but
  is not what is returned; after code that closes the stream the function raises
  \<open>ValueError\<close> instead of returning; an exception whose \<^verbatim>\<open>str(e)\<close> raises is not
  returned as a text, the \<open>TypeError\<close> of \<^verbatim>\<open>str(e)\<close> leaves the function; and the
  \<open>SyntaxError\<close> that \<^verbatim>\<open>eval\<close> raises on a statement is caught but not returned as
  a text.
\<close>

theorem capture_code_output_counterexample:
  \<open>capture_code_output test_eval test_exec ''raise SystemExit'' None None
     = Inl (PyExc SystemExit (Inr []))
   \<and> contents (output_after (test_eval ''print()'' [] [] \<lparr>contents = [], closed = False\<rparr>))
     = [newline]
   \<and> capture_code_output test_eval test_exec ''print()'' None None = Inr (Value PNone)
   \<and> capture_code_output test_eval test_exec ''import sys; sys.stdout.close()'' None None
     = Inl (PyExc ValueError (Inr ''I/O operation on closed file''))
   \<and> capture_code_output test_eval test_exec
       ''raise type("E", (Exception,), {"__str__": lambda s: 1})()'' None None
     = Inl (PyExc TypeError (Inr ''__str__ returned non-string (type int)''))
   \<and> outcome (test_eval ''x = 1'' [] [] \<lparr>contents = [], closed = False\<rparr>)
     = Inl (PyExc SyntaxError (Inr ''invalid syntax''))
   \<and> capture_code_output test_eval test_exec ''x = 1'' None None = Inr NoneValue\<close>
  by (simp add: capture_code_output_def test_eval_def test_exec_def except_Exception_def
      after_try_def getvalue_def strip_def is_space_def newline_def)

text \<open>
  Claim C10, as the code has it.  When everything the code wrote to standard output is
  whitespace and the code left the stream open, \<^const>\<open>capture_code_output\<close> returns what
  it returns when nothing was written: the value of the expression, or \<^verbatim>\<open>None\<close>
  after statements.  When the code closed the stream, the function raises \<open>ValueError\<close>,
  whatever was written.
\<close>

theorem whitespace_only_stdout_discarded:
  "let g = (case globals_dict of None \<Rightarrow> [] | Some d \<Rightarrow> d);
       l = (case locals_dict of None \<Rightarrow> g | Some d \<Rightarrow> d);
       ev = py_eval code_string g l \<lparr>contents = [], closed = False\<rparr>;
       ex = py_exec code_string (globals_after ev) (locals_after ev) (output_after ev);
       closed_error = PyExc ValueError (Inr ''I/O operation on closed file'');
       result = capture_code_output py_eval py_exec code_string globals_dict locals_dict
   in (\<forall>v. outcome ev = Inr v \<and> \<not> closed (output_after ev)
          \<and> (\<forall>c \<in> set (contents (output_after ev)). is_space c) \<longrightarrow>
         result = Inr (Value v)) \<and>
      (\<forall>e u. outcome ev = Inl e \<and> class_of e = SyntaxError \<and> outcome ex = Inr u
          \<and> \<not> closed (output_after ex)
          \<and> (\<forall>c \<in> set (contents (output_after ex)). is_space c) \<longrightarrow>
         result = Inr NoneValue) \<and>
      (\<forall>v. outcome ev = Inr v \<and> closed (output_after ev) \<longrightarrow>
         result = Inl closed_error) \<and>
      (\<forall>e u. outcome ev = Inl e \<and> class_of e = SyntaxError \<and> outcome ex = Inr u
          \<and> closed (output_after ex) \<longrightarrow>
         result = Inl closed_error)"
proof -
  have blank: "strip s = []" if "\<forall>c \<in> set s. is_space c" for s
  proof -
    have d: "dropWhile is_space s = []" using that by (induction s) simp_all
    show ?thesis unfolding strip_def d by simp
  qed
  show ?thesis
    unfolding Let_def
    by (intro conjI allI impI; elim conjE)
      (simp_all add: capture_code_output_def Let_def after_try_def getvalue_def blank)
qed

text \<open>
  The theorem for claim C10 at \<^verbatim>\<open>print()\<close>, which writes one newline and has the
  value \<^verbatim>\<open>None\<close>, and at the statement \<^verbatim>\<open>x = 1\<close>, which writes nothing.
\<close>

theorem whitespace_only_stdout_discarded_witness:
  "capture_code_output test_eval test_exec ''print()'' None None = Inr (Value PNone)
   \<and> contents (output_after (test_eval ''print()'' [] [] \<lparr>contents = [], closed = False\<rparr>))
     = [newline]
   \<and> capture_code_output test_eval test_exec ''x = 1'' None None = Inr NoneValue"
  using whitespace_only_stdout_discarded [of None None test_eval "''print()''" test_exec]
    whitespace_only_stdout_discarded [of None None test_eval "''x = 1''" test_exec]
  by (simp add: Let_def test_eval_def test_exec_def is_space_def newline_def)

text \<open>
  Claim C10 as stated fails when the code also closes the stream: the expression below
  writes one newline, closes the stream and has the value \<^verbatim>\<open>None\<close>; the function
  does not return that value, it raises \<open>ValueError\<close>.
\<close>

theorem closed_stream_counterexample:
  \<open>contents (output_after
       (test_eval ''print() or __import__("sys").stdout.close()'' [] []
          \<lparr>contents = [], closed = False\<rparr>))
     = [newline]
   \<and> outcome (test_eval ''print() or __import__("sys").stdout.close()'' [] []
          \<lparr>contents = [], closed = False\<rparr>)
     = Inr PNone
   \<and> capture_code_output test_eval test_exec
       ''print() or __import__("sys").stdout.close()'' None None
     = Inl (PyExc ValueError (Inr ''I/O operation on closed file''))\<close>
  by (simp add: capture_code_output_def test_eval_def after_try_def getvalue_def)

section \<open>Properties of \<^verbatim>\<open>try_parse_funccall\<close>\<close>

lemma map_of_dict_set_same: "map_of (dict_set k v d) k = Some v"
  by (induction d) auto

lemma map_of_dict_set_other: "k' \<noteq> k \<Longrightarrow> map_of (dict_set k v d) k' = map_of d k'"
  by (induction d) auto

lemma dict_get_id:
  "dict_get (dict_set ''id'' v d) ''id'' = Inr v"
  by (simp add: dict_get_def map_of_dict_set_same)

lemma dict_get_name:
  "dict_get (dict_set ''id'' v d) ''name'' = dict_get d ''name''"
  by (simp add: dict_get_def map_of_dict_set_other)

lemma dict_get_arguments:
  "dict_get (dict_set ''id'' v d) ''arguments'' = dict_get d ''arguments''"
  by (simp add: dict_get_def map_of_dict_set_other)

lemma random_choices_id:
  "length (fst (random_choices g ascii_letters_digits 9)) = 9"
  "set (fst (random_choices g ascii_letters_digits 9)) \<subseteq> set ascii_letters_digits"
proof -
  show "length (fst (random_choices g ascii_letters_digits 9)) = 9"
    by (simp add: random_choices_def)
  have "length ascii_letters_digits = 62" by (simp add: ascii_letters_digits_def)
  then have "ascii_letters_digits ! (n mod length ascii_letters_digits)
      \<in> set ascii_letters_digits" for n
    by (intro nth_mem) simp
  then show "set (fst (random_choices g ascii_letters_digits 9)) \<subseteq> set ascii_letters_digits"
    by (auto simp: random_choices_def simp del: upt_Suc)
qed

text \<open>One step of the loop, by what the call object holds.\<close>

lemma call_loop_step:
  "call_loop tok js tools (JDict d # rest) g res =
     (let call_id = fst (random_choices g ascii_letters_digits 9);
          g' = snd (random_choices g ascii_letters_digits 9)
      in case dict_get d ''name'' of
           Inl e \<Rightarrow> (Inl e, g')
         | Inr name \<Rightarrow>
             (case lookup_tool tools name of
                Inl e \<Rightarrow> (Inl e, g')
              | Inr None \<Rightarrow> call_loop tok js tools rest g' res
              | Inr (Some tool) \<Rightarrow>
                  (case dict_get d ''arguments'' of
                     Inl e \<Rightarrow> (Inl e, g')
                   | Inr (JDict kwargs) \<Rightarrow>
                       (case tool kwargs of
                          Inl e \<Rightarrow> (Inl e, g')
                        | Inr content \<Rightarrow>
                            call_loop tok js tools rest g'
                              (res @
                               [[token_to_id tok ''[TOOL_RESULTS]''],
                                encode tok
                                  (dumps js
                                     (JDict [(''content'', content),
                                             (''call_id'', JStr call_id)])),
                                [token_to_id tok ''[/TOOL_RESULTS]'']]))
                   | Inr _ \<Rightarrow>
                       (Inl (PyExc TypeError (Inr ''argument after ** must be a mapping'')), g'))))"
  by (simp add: Let_def dict_get_id dict_get_name dict_get_arguments
      split: prod.splits sum.splits option.splits json.splits)




text \<open>The function when the control token is in the response.\<close>

lemma try_parse_funccall_at_marker:
  assumes "filter (\<lambda>i. response ! i = token_to_id tok ''[TOOL_CALLS]'')
             [0..<length response] = pos # others"
  shows "try_parse_funccall tok js tools response g =
     (case try_body tok js tools response pos g of
        (Inl e, g') \<Rightarrow>
          if handled (class_of e)
          then (case str_of e of
                  Inr text_of_e \<Rightarrow> (Inr [response], g')
                | Inl e' \<Rightarrow> (Inl e', g'))
          else (Inl e, g')
      | (Inr res, g') \<Rightarrow> (Inr res, g'))"
  unfolding try_parse_funccall_def Let_def assms by simp

lemma try_body_calls:
  assumes "raw_decode js (detokenize tok (drop (pos + 1) response)) = Inr (JList items, n)"
    and "list_all is_dict items"
  shows "try_body tok js tools response pos g = call_loop tok js tools items g []"
  using assms by (simp add: try_body_def)

text \<open>
  Claim C5, as the code has it.  The response holds the control token
  \<^verbatim>\<open>[TOOL_CALLS]\<close>, first at \<open>pos\<close>.  When the payload after it decodes to the one
  call of \<^verbatim>\<open>unknown_tool\<close>, which is not in the tool table, the returned list is empty.
  When it decodes to the one call of \<^verbatim>\<open>known_tool\<close> with the argument \<open>x = 1\<close>,
  and the tool is in the table and returns \<open>content\<close>, the returned list is one result
  block: the opening control token, the tokens of the dictionary with \<open>content\<close> and
  the call identifier, and the closing control token.  The identifier is the string of
  nine letters and digits picked by the next nine draws of the random generator; nothing
  compares it with earlier identifiers.
\<close>

theorem structured_call_unknown_and_known:
  assumes "filter (\<lambda>i. response ! i = token_to_id tok ''[TOOL_CALLS]'')
             [0..<length response] = pos # others"
  shows "(raw_decode js (detokenize tok (drop (pos + 1) response)) =
            Inr (JList [JDict [(''name'', JStr ''unknown_tool''),
                               (''arguments'', JDict [])]], n)
          \<and> tools ''unknown_tool'' = None
          \<longrightarrow> fst (try_parse_funccall tok js tools response g) = Inr [])
    \<and> (raw_decode js (detokenize tok (drop (pos + 1) response)) =
            Inr (JList [JDict [(''name'', JStr ''known_tool''),
                               (''arguments'', JDict [(''x'', JInt 1)])]], n)
          \<and> tools ''known_tool'' = Some tool
          \<and> tool [(''x'', JInt 1)] = Inr content
          \<longrightarrow> (let call_id = fst (random_choices g ascii_letters_digits 9)
               in try_parse_funccall tok js tools response g =
                    (Inr [[token_to_id tok ''[TOOL_RESULTS]''],
                          encode tok
                            (dumps js (JDict [(''content'', content),
                                              (''call_id'', JStr call_id)])),
                          [token_to_id tok ''[/TOOL_RESULTS]'']],
                     snd (random_choices g ascii_letters_digits 9))
                  \<and> length call_id = 9
                  \<and> set call_id \<subseteq> set ascii_letters_digits))"
proof (intro conjI impI)
  assume h: "raw_decode js (detokenize tok (drop (pos + 1) response)) =
            Inr (JList [JDict [(''name'', JStr ''unknown_tool''),
                               (''arguments'', JDict [])]], n)
          \<and> tools ''unknown_tool'' = None"
  then have "try_body tok js tools response pos g =
      call_loop tok js tools
        [JDict [(''name'', JStr ''unknown_tool''), (''arguments'', JDict [])]] g []"
    by (intro try_body_calls [where n = n]) simp_all
  also have "\<dots> = (Inr [], snd (random_choices g ascii_letters_digits 9))"
    using h unfolding call_loop_step by (simp add: dict_get_def)
  finally show "fst (try_parse_funccall tok js tools response g) = Inr []"
    unfolding try_parse_funccall_at_marker [OF assms] by simp
next
  assume h: "raw_decode js (detokenize tok (drop (pos + 1) response)) =
            Inr (JList [JDict [(''name'', JStr ''known_tool''),
                               (''arguments'', JDict [(''x'', JInt 1)])]], n)
          \<and> tools ''known_tool'' = Some tool
          \<and> tool [(''x'', JInt 1)] = Inr content"
  let ?call_id = "fst (random_choices g ascii_letters_digits 9)"
  let ?block = "[[token_to_id tok ''[TOOL_RESULTS]''],
                  encode tok
                    (dumps js (JDict [(''content'', content), (''call_id'', JStr ?call_id)])),
                  [token_to_id tok ''[/TOOL_RESULTS]'']]"
  from h have "try_body tok js tools response pos g =
      call_loop tok js tools
        [JDict [(''name'', JStr ''known_tool''),
                (''arguments'', JDict [(''x'', JInt 1)])]] g []"
    by (intro try_body_calls [where n = n]) simp_all
  also have "\<dots> = (Inr ?block, snd (random_choices g ascii_letters_digits 9))"
    using h unfolding call_loop_step by (simp add: dict_get_def)
  finally have "try_parse_funccall tok js tools response g =
      (Inr ?block, snd (random_choices g ascii_letters_digits 9))"
    unfolding try_parse_funccall_at_marker [OF assms] by simp
  then show "let call_id = fst (random_choices g ascii_letters_digits 9)
     in try_parse_funccall tok js tools response g =
          (Inr [[token_to_id tok ''[TOOL_RESULTS]''],
                encode tok
                  (dumps js (JDict [(''content'', content), (''call_id'', JStr call_id)])),
                [token_to_id tok ''[/TOOL_RESULTS]'']],
           snd (random_choices g ascii_letters_digits 9))
        \<and> length call_id = 9
        \<and> set call_id \<subseteq> set ascii_letters_digits"
    unfolding Let_def using random_choices_id [of g] by simp
qed

text \<open>The stand-ins on a response made of the control token and a payload.\<close>

lemma test_marker:
  "filter (\<lambda>i. tool_call_response payload ! i = token_to_id test_tokenizer ''[TOOL_CALLS]'')
     [0..<length (tool_call_response payload)] = 0 # []"
proof -
  have no: "filter (\<lambda>i. (map of_char payload :: int list) ! i = 1005) [0..<length payload]
      = []"
  proof -
    have "(of_char c :: int) \<noteq> 1005" for c
    proof
      assume "of_char c = (1005::int)"
      moreover have "(of_char c :: int) mod 256 = of_char c" by simp
      ultimately have "(1005::int) mod 256 = 1005" by simp
      then show False by simp
    qed
    then show ?thesis by (auto simp: filter_empty_conv)
  qed
  have "filter (\<lambda>i. (1005 # map of_char payload) ! i = (1005::int))
      [0..<length (1005 # map of_char payload :: int list)]
    = 0 # map Suc
        (filter (\<lambda>i. (map of_char payload :: int list) ! i = 1005) [0..<length payload])"
    by (simp add: upt_conv_Cons filter_map comp_def flip: map_Suc_upt del: upt_Suc)
  then show ?thesis
    unfolding no by (simp add: tool_call_response_def test_tokenizer_def)
qed

lemma test_detokenize:
  "detokenize test_tokenizer (drop (0 + 1) (tool_call_response payload)) = payload"
proof -
  have "(of_char c :: int) < 256" for c
  proof -
    have "(of_char c :: int) mod 256 < 256" by (intro pos_mod_bound) simp
    then show ?thesis by simp
  qed
  then have "filter (\<lambda>i. i < 256) (map of_char payload :: int list) = map of_char payload"
    by (intro filter_True) auto
  then show ?thesis
    by (simp add: tool_call_response_def test_tokenizer_def comp_def)
qed

text \<open>The theorem for claim C5 with the stand-ins, on the two payloads of the claim.\<close>

theorem structured_call_unknown_and_known_witness:
  \<open>fst (try_parse_funccall test_tokenizer test_json test_tools
          (tool_call_response ''[{"name":"unknown_tool","arguments":{}}]'') constant_draws)
     = Inr []
   \<and> fst (try_parse_funccall test_tokenizer test_json test_tools
          (tool_call_response ''[{"name":"known_tool","arguments":{"x":1}}]'') constant_draws)
     = Inr [[1008],
            encode test_tokenizer ''{"content": "done", "call_id": "aaaaaaaaa"}'',
            [1009]]\<close>
proof -
  have a: \<open>fst (try_parse_funccall test_tokenizer test_json test_tools
          (tool_call_response ''[{"name":"unknown_tool","arguments":{}}]'') constant_draws)
     = Inr []\<close>
    using structured_call_unknown_and_known
        [OF test_marker [of \<open>''[{"name":"unknown_tool","arguments":{}}]''\<close>],
        where js = test_json and tools = test_tools and g = constant_draws
          and n = \<open>length ''[{"name":"unknown_tool","arguments":{}}]''\<close>]
    unfolding test_detokenize
    by (simp add: test_json_def test_tools_def)
  have b: \<open>fst (try_parse_funccall test_tokenizer test_json test_tools
          (tool_call_response ''[{"name":"known_tool","arguments":{"x":1}}]'') constant_draws)
     = Inr [[1008],
            encode test_tokenizer ''{"content": "done", "call_id": "aaaaaaaaa"}'',
            [1009]]\<close>
    using structured_call_unknown_and_known
        [OF test_marker [of \<open>''[{"name":"known_tool","arguments":{"x":1}}]''\<close>],
        where js = test_json and tools = test_tools and g = constant_draws
          and n = \<open>length ''[{"name":"known_tool","arguments":{"x":1}}]''\<close>
          and tool = \<open>\<lambda>kwargs. if map fst kwargs = [''x''] then Inr (JStr ''done'')
                      else Inl (PyExc TypeError (Inr ''unexpected keyword argument''))\<close>
          and content = \<open>JStr ''done''\<close>]
    unfolding test_detokenize
    by (simp add: test_json_def test_tools_def test_tokenizer_def Let_def
        random_choices_def ascii_letters_digits_def constant_draws_def upt_rec)
  from a b show ?thesis by simp
qed

lemma test_run:
  "try_parse_funccall test_tokenizer test_json test_tools (tool_call_response payload) g =
     (case (case raw_decode test_json payload of
              Inl e \<Rightarrow> (Inl e, g)
            | Inr (tool_calls, n) \<Rightarrow>
                (case tool_calls of
                   JList items \<Rightarrow>
                     if \<not> list_all is_dict items
                     then (Inr [tool_call_response payload], g)
                     else call_loop test_tokenizer test_json test_tools items g []
                 | _ \<Rightarrow> (Inr [tool_call_response payload], g))) of
        (Inl e, g') \<Rightarrow>
          if handled (class_of e)
          then (case str_of e of
                  Inr text_of_e \<Rightarrow> (Inr [tool_call_response payload], g')
                | Inl e' \<Rightarrow> (Inl e', g'))
          else (Inl e, g')
      | (Inr res, g') \<Rightarrow> (Inr res, g'))"
  unfolding try_parse_funccall_at_marker [OF test_marker] try_body_def test_detokenize ..

text \<open>
  Claim C5 as stated fails on the identifier: with a generator that draws the same values
  again, a second run, started in the state the first one left, produces the identifier
  of the first run once more.
\<close>

theorem call_id_repeats_counterexample:
  \<open>try_parse_funccall test_tokenizer test_json test_tools
       (tool_call_response ''[{"name":"known_tool","arguments":{"x":1}}]'') constant_draws
     = (Inr [[1008],
             encode test_tokenizer ''{"content": "done", "call_id": "aaaaaaaaa"}'',
             [1009]],
        snd (random_choices constant_draws ascii_letters_digits 9))
   \<and> fst (try_parse_funccall test_tokenizer test_json test_tools
       (tool_call_response ''[{"name":"known_tool","arguments":{"x":1}}]'')
       (snd (random_choices constant_draws ascii_letters_digits 9)))
     = Inr [[1008],
            encode test_tokenizer ''{"content": "done", "call_id": "aaaaaaaaa"}'',
            [1009]]\<close>
  unfolding test_run
  by (simp add: test_json_def test_tools_def test_tokenizer_def Let_def dict_get_def
      random_choices_def ascii_letters_digits_def constant_draws_def upt_rec)






end
